theory Spec2Isabelle
  imports Main "HOL-Library.Sublist" "HOL-Library.AList"
begin

section \<open>JavaScript values and the JSON text of a payload\<close>

text \<open>
  A JavaScript value as the synchronized data can hold it. Numbers are any linearly
  ordered type with a zero (the readings of \<open>Date.now()\<close> and the numbers of a JSON
  text; \<open>NaN\<close> is not among them). A \<open>Date\<close> instance is held by its ISO-8601 text,
  \<open>None\<close> for an invalid Date. An object is the list of its own properties in
  enumeration order.
\<close>

datatype 'n jsvalue =
    JUndefined
  | JNull
  | JBool bool
  | JNum 'n
  | JStr string
  | JArr "'n jsvalue list"
  | JObj "(string \<times> 'n jsvalue) list"
  | JDate "string option"

text \<open>
  The text handed to the transports. \<open>JSON.stringify\<close> and \<open>JSON.parse\<close> belong to
  the host. \<open>Json d\<close> is the text \<open>JSON.stringify\<close> writes for the document \<open>d\<close>;
  \<open>Respelled n d\<close> is another text that parses to \<open>d\<close> (other spacing, escapes or
  spelling of a number), the number \<open>n\<close> telling such texts apart; \<open>Malformed s\<close> is
  a text that \<open>JSON.parse\<close> rejects, with its characters. Two texts are the same
  string exactly when they are equal here, which is what the poll compares.
\<close>

datatype 'n payload = Json "'n jsvalue" | Respelled nat "'n jsvalue" | Malformed string

datatype error = JsError (err_name: string) (err_message: string)

text \<open>What \<open>JSON.stringify\<close> writes for a value inside an array or as a property value:
  a Date by its \<open>toJSON\<close> (the ISO text, \<open>null\<close> for an invalid Date), \<open>undefined\<close>
  as \<open>null\<close> inside an array, and a property whose value is \<open>undefined\<close> left out.\<close>

fun toJSON :: "'n jsvalue \<Rightarrow> 'n jsvalue" where
  "toJSON JUndefined = JNull"
| "toJSON JNull = JNull"
| "toJSON (JBool b) = JBool b"
| "toJSON (JNum n) = JNum n"
| "toJSON (JStr s) = JStr s"
| "toJSON (JArr vs) = JArr (map toJSON vs)"
| "toJSON (JObj kvs) =
     JObj (map (\<lambda>kv. (fst kv, toJSON (snd kv))) (filter (\<lambda>kv. snd kv \<noteq> JUndefined) kvs))"
| "toJSON (JDate None) = JNull"
| "toJSON (JDate (Some s)) = JStr s"

definition JSON_stringify :: "'n jsvalue \<Rightarrow> 'n payload" where
  "JSON_stringify v = Json (toJSON v)"

fun JSON_parse :: "'n payload \<Rightarrow> error + 'n jsvalue" where
  "JSON_parse (Json d) = Inr d"
| "JSON_parse (Respelled n d) = Inr d"
| "JSON_parse (Malformed s) = Inl (JsError ''SyntaxError'' s)"

text \<open>A text is falsy exactly when it is the empty string.\<close>

fun truthy_text :: "'n payload option \<Rightarrow> bool" where
  "truthy_text None = False"
| "truthy_text (Some (Malformed s)) = (s \<noteq> [])"
| "truthy_text (Some (Json d)) = True"
| "truthy_text (Some (Respelled n d)) = True"

fun truthy :: "('n::{zero,linorder}) jsvalue \<Rightarrow> bool" where
  "truthy JUndefined = False"
| "truthy JNull = False"
| "truthy (JBool b) = b"
| "truthy (JNum n) = (n \<noteq> 0)"
| "truthy (JStr s) = (s \<noteq> [])"
| "truthy _ = True"

fun typeof :: "'n jsvalue \<Rightarrow> string" where
  "typeof JUndefined = ''undefined''"
| "typeof JNull = ''object''"
| "typeof (JBool b) = ''boolean''"
| "typeof (JNum n) = ''number''"
| "typeof (JStr s) = ''string''"
| "typeof _ = ''object''"

text \<open>\<open>k in v\<close> and \<open>v.k\<close> for the keys the code asks for (\<open>data\<close>, \<open>timestamp\<close>):
  an array and a Date have neither.\<close>

fun has_property :: "string \<Rightarrow> 'n jsvalue \<Rightarrow> bool" where
  "has_property k (JObj kvs) = (map_of kvs k \<noteq> None)"
| "has_property k _ = False"

fun get_property :: "'n jsvalue \<Rightarrow> string \<Rightarrow> 'n jsvalue" where
  "get_property (JObj kvs) k = (case map_of kvs k of Some v \<Rightarrow> v | None \<Rightarrow> JUndefined)"
| "get_property _ k = JUndefined"

definition isValidSyncData :: "('n::{zero,linorder}) jsvalue \<Rightarrow> bool" where
  "isValidSyncData d \<longleftrightarrow>
     truthy d \<and>
     typeof d = ''object'' \<and>
     has_property ''data'' d \<and>
     has_property ''timestamp'' d \<and>
     typeof (get_property d ''timestamp'') = ''number''"

subsection \<open>Own properties and the setter of a store\<close>

text \<open>
  An object enumerates its own properties with the array indices first (the canonical
  decimal strings below \<open>2^32 - 1\<close>), in ascending numeric order, and then the other
  keys in the order they were created.
\<close>

definition digit_value :: "char \<Rightarrow> nat option" where
  "digit_value c = map_of (zip ''0123456789'' [0 ..< 10]) c"

definition decimal :: "string \<Rightarrow> nat" where
  "decimal s = foldl (\<lambda>n c. 10 * n + the (digit_value c)) 0 s"

definition array_index :: "string \<Rightarrow> nat option" where
  "array_index s =
     (if s \<noteq> [] \<and> list_all (\<lambda>c. digit_value c \<noteq> None) s \<and> (hd s \<noteq> CHR ''0'' \<or> s = ''0'')
         \<and> decimal s < 4294967295
      then Some (decimal s) else None)"

function show_nat :: "nat \<Rightarrow> string" where
  "show_nat n =
     (if n < 10 then [''0123456789'' ! n]
      else show_nat (n div 10) @ [''0123456789'' ! (n mod 10)])"
  by pat_completeness auto
termination by (relation "measure id") auto

declare show_nat.simps [simp del]

text \<open>What \<open>Object.keys\<close> lists, with the values: the properties of an object, the
  elements of an array and the characters of a string under their indices, and nothing
  for any other value.\<close>

fun own_properties :: "'n jsvalue \<Rightarrow> (string \<times> 'n jsvalue) list" where
  "own_properties (JObj kvs) = kvs"
| "own_properties (JArr vs) = map (\<lambda>i. (show_nat i, vs ! i)) [0 ..< length vs]"
| "own_properties (JStr s) = map (\<lambda>i. (show_nat i, JStr [s ! i])) [0 ..< length s]"
| "own_properties _ = []"

text \<open>Creating a property that the object does not have yet.\<close>

definition precedes :: "nat \<Rightarrow> string \<times> 'n jsvalue \<Rightarrow> bool" where
  "precedes i kv = (case array_index (fst kv) of Some j \<Rightarrow> j < i | None \<Rightarrow> False)"

definition defineProperty ::
  "string \<Rightarrow> 'n jsvalue \<Rightarrow> (string \<times> 'n jsvalue) list \<Rightarrow> (string \<times> 'n jsvalue) list" where
  "defineProperty k v kvs =
     (case array_index k of
        None \<Rightarrow> kvs @ [(k, v)]
      | Some i \<Rightarrow> takeWhile (precedes i) kvs @ [(k, v)] @ dropWhile (precedes i) kvs)"

text \<open>
  \<open>createStore\<close> and \<open>setStore\<close> belong to the reactive library (solid-js/store).
  \<open>setProperty\<close> assigns a property of the store, or deletes it when the value is
  \<open>undefined\<close>; \<open>mergeStoreNode\<close> does so for each own property of a value. Called
  with one function on a store that is a plain object, \<open>setStore(() => value)\<close>
  does nothing when \<open>value\<close> is \<open>undefined\<close> or \<open>null\<close>, and otherwise merges
  \<open>value\<close> into the store: the properties of the store that \<open>value\<close> does not have
  stay as they are.
\<close>

definition setProperty ::
  "string \<Rightarrow> 'n jsvalue \<Rightarrow> (string \<times> 'n jsvalue) list \<Rightarrow> (string \<times> 'n jsvalue) list" where
  "setProperty k v kvs =
     (if v = JUndefined then AList.delete k kvs
      else if map_of kvs k \<noteq> None then AList.update k v kvs
      else defineProperty k v kvs)"

definition mergeStoreNode ::
  "(string \<times> 'n jsvalue) list \<Rightarrow> 'n jsvalue \<Rightarrow> (string \<times> 'n jsvalue) list" where
  "mergeStoreNode state v = fold (\<lambda>kv. setProperty (fst kv) (snd kv)) (own_properties v) state"

definition setStore :: "'n jsvalue \<Rightarrow> 'n jsvalue \<Rightarrow> 'n jsvalue" where
  "setStore state v =
     (if v = JUndefined \<or> v = JNull then state
      else (case state of JObj props \<Rightarrow> JObj (mergeStoreNode props v) | _ \<Rightarrow> state))"

subsection \<open>The codec of the scalar unit\<close>

text \<open>
  \<open>serializeData\<close> is \<open>JSON.stringify\<close> with a replacer that turns a Date into
  \<open>{__type: "Date", value: iso}\<close>, and \<open>deserializeData\<close> is \<open>JSON.parse\<close> with a
  reviver that turns such an object into a Date. \<open>JSON.stringify\<close> replaces a value
  that has a \<open>toJSON\<close> method by what that method returns before it hands the value
  to the replacer (ECMAScript, SerializeJSONProperty, steps 2 and 3); of the values here
  a Date has one, which returns the ISO text, or \<open>null\<close> for an invalid Date.
  \<open>toISOString\<close> throws a \<open>RangeError\<close> on an invalid Date.
\<close>

fun date_toJSON :: "'n jsvalue \<Rightarrow> 'n jsvalue" where
  "date_toJSON (JDate (Some s)) = JStr s"
| "date_toJSON (JDate None) = JNull"
| "date_toJSON v = v"

fun toISOString :: "'n jsvalue \<Rightarrow> error + string" where
  "toISOString (JDate (Some s)) = Inr s"
| "toISOString _ = Inl (JsError ''RangeError'' ''Invalid time value'')"

fun instanceof_Date :: "'n jsvalue \<Rightarrow> bool" where
  "instanceof_Date (JDate d) = True"
| "instanceof_Date _ = False"

definition replacer :: "'n jsvalue \<Rightarrow> error + 'n jsvalue" where
  "replacer v =
     (if instanceof_Date v then
        (case toISOString v of
           Inl e \<Rightarrow> Inl e
         | Inr s \<Rightarrow> Inr (JObj [(''__type'', JStr ''Date''), (''value'', JStr s)]))
      else Inr v)"

fun collect :: "(error + 'a) list \<Rightarrow> error + 'a list" where
  "collect [] = Inr []"
| "collect (r # rs) =
     (case r of
        Inl e \<Rightarrow> Inl e
      | Inr x \<Rightarrow> (case collect rs of Inl e \<Rightarrow> Inl e | Inr xs \<Rightarrow> Inr (x # xs)))"

text \<open>The document \<open>JSON.stringify(v, replacer)\<close> writes for \<open>v\<close>: at each value,
  \<open>toJSON\<close> first, then the replacer, then the elements or properties of what the
  replacer returned. A result \<open>undefined\<close> is written \<open>null\<close> inside an array and
  drops the property of an object; a Date that the replacer returned would be written as
  an object without properties.\<close>

function serialize :: "'n jsvalue \<Rightarrow> error + 'n jsvalue" where
  "serialize v =
     (case replacer (date_toJSON v) of
        Inl e \<Rightarrow> Inl e
      | Inr r \<Rightarrow>
          (case r of
             JArr vs \<Rightarrow>
               (case collect (map serialize vs) of
                  Inl e \<Rightarrow> Inl e
                | Inr rs \<Rightarrow> Inr (JArr (map (\<lambda>x. if x = JUndefined then JNull else x) rs)))
           | JObj kvs \<Rightarrow>
               (case collect (map (\<lambda>kv. case serialize (snd kv) of
                                          Inl e \<Rightarrow> Inl e
                                        | Inr x \<Rightarrow> Inr (fst kv, x)) kvs) of
                  Inl e \<Rightarrow> Inl e
                | Inr rs \<Rightarrow> Inr (JObj (filter (\<lambda>kv. snd kv \<noteq> JUndefined) rs)))
           | JDate d \<Rightarrow> Inr (JObj [])
           | _ \<Rightarrow> Inr r))"
  by pat_completeness auto

termination
proof (relation "measure size")
  show "wf (measure size)" by simp
next
  fix v :: "'n jsvalue" and r vs x
  assume "replacer (date_toJSON v) = Inr r" "r = JArr vs" "x \<in> set vs"
  then have "v = JArr vs" by (cases v rule: date_toJSON.cases) (simp_all add: replacer_def)
  with \<open>x \<in> set vs\<close> show "(x, v) \<in> measure size"
    by (simp add: less_Suc_eq_le size_list_estimation')
next
  fix v :: "'n jsvalue" and r kvs kv
  assume "replacer (date_toJSON v) = Inr r" "r = JObj kvs" "kv \<in> set kvs"
  then have "v = JObj kvs" by (cases v rule: date_toJSON.cases) (simp_all add: replacer_def)
  moreover have "size (snd kv) < Suc (size_list (size_prod (\<lambda>_. 0) size) kvs)"
    using \<open>kv \<in> set kvs\<close> by (induction kvs) auto
  ultimately show "(snd kv, v) \<in> measure size" by simp
qed

declare serialize.simps [simp del]

definition serializeData :: "'n jsvalue \<Rightarrow> error + 'n payload" where
  "serializeData data = (case serialize data of Inl e \<Rightarrow> Inl e | Inr d \<Rightarrow> Inr (Json d))"

text \<open>
  The reviver is called for each value of the parsed document, the elements and
  properties of a value before the value itself. \<open>new Date(x)\<close> belongs to the host
  and does not throw: it is taken as a parameter \<open>newDate\<close>, giving the ISO text of the
  Date made from \<open>x\<close>, or \<open>None\<close> for an invalid Date. So the \<open>catch\<close> around it,
  with its string \<open>Invalid Date: ...\<close>, is never entered.
\<close>

definition reviver :: "('n jsvalue \<Rightarrow> string option) \<Rightarrow> ('n::{zero,linorder}) jsvalue \<Rightarrow> 'n jsvalue" where
  "reviver newDate v =
     (if truthy v \<and> get_property v ''__type'' = JStr ''Date''
      then JDate (newDate (get_property v ''value''))
      else v)"

fun revive :: "('n jsvalue \<Rightarrow> string option) \<Rightarrow> ('n::{zero,linorder}) jsvalue \<Rightarrow> 'n jsvalue" where
  "revive newDate (JArr vs) = reviver newDate (JArr (map (revive newDate) vs))"
| "revive newDate (JObj kvs) =
     reviver newDate (JObj (map (\<lambda>kv. (fst kv, revive newDate (snd kv))) kvs))"
| "revive newDate v = reviver newDate v"

definition deserializeData ::
  "('n jsvalue \<Rightarrow> string option) \<Rightarrow> ('n::{zero,linorder}) payload \<Rightarrow> error + 'n jsvalue" where
  "deserializeData newDate raw =
     (case JSON_parse raw of Inl e \<Rightarrow> Inl e | Inr d \<Rightarrow> Inr (revive newDate d))"


section \<open>A structured unit and the context it lives in\<close>

datatype storage_type = Broadcast | LocalStorageOnly

text \<open>The options object of \<open>createSyncStore\<close>; an absent optional field is \<open>None\<close>,
  and so is a \<open>key\<close> the caller left out. The initial value is a plain object, given
  by its properties (the type parameter is \<open>T extends object\<close>; an array or another
  exotic object as the root of a store is not modelled).\<close>

record 'n options =
  opt_key :: "string option"
  opt_initialValue :: "(string \<times> 'n jsvalue) list"
  opt_storageType :: "storage_type option"
  opt_persistOnLoad :: "bool option"
  opt_pollingInterval :: "nat option"

text \<open>The handle of a \<open>BroadcastChannel\<close>: the host throws \<open>InvalidStateError\<close> on
  \<open>postMessage\<close> once the handle is closed.\<close>

datatype handle = ChanOpen | ChanClosed

text \<open>The variables one call of \<open>createSyncStore\<close> closes over. \<open>store\<close> is the
  observable cell, the object \<open>createStore\<close> was given, written through \<open>setStore\<close>.
  \<open>lastUpdate\<close> is the watermark (a signal, read and written whole);
  \<open>pollingInterval\<close> holds the timer id; \<open>lastData\<close> is the text the poll saw last.\<close>

record 'n sync_unit =
  key :: "string option"
  storageType :: storage_type
  store :: "'n jsvalue"
  lastUpdate :: 'n
  channel :: "handle option"
  channelClosed :: bool
  storageListener :: bool
  pollingInterval :: "nat option"
  lastData :: "'n payload option"

text \<open>The options object of \<open>createSyncSignal\<close> (it does not read \<open>storageType\<close>),
  and the variables one call of \<open>createSyncSignal\<close> closes over: the value and the
  watermark (two signals), the channel (closed at teardown, never set back to
  \<open>null\<close>), the listener, the ids of the polling timer and of the throttle timer,
  the text the poll saw last, and whether \<open>setValue\<close> has been replaced by the
  wrapper that \<open>autoSync\<close> installs.\<close>

record signal_options =
  so_key :: "string option"
  so_throttleMs :: "nat option"
  so_autoSync :: "bool option"
  so_pollingInterval :: "nat option"
  so_persistOnLoad :: "bool option"

record 'n signal_unit =
  sig_key :: "string option"
  sig_value :: "'n jsvalue"
  sig_lastUpdate :: 'n
  sig_channel :: "handle option"
  sig_storageListener :: bool
  sig_pollingIntervalId :: "nat option"
  sig_throttleTimeout :: "nat option"
  sig_throttleMs :: nat
  sig_lastData :: "'n payload option"
  sig_autoSync :: bool

text \<open>What the two registries hold: the \<open>sync\<close> and \<open>cleanup\<close> of a structured or
  of a scalar unit, or a function that other code has put into the exported \<open>Map\<close>,
  which is opaque here: it has an identity and it throws or does not.\<close>

datatype sync_fn = StoreSync nat | SignalSync nat | ForeignSync nat
datatype cleanup_fn = StoreCleanup nat | SignalCleanup nat | ForeignCleanup nat bool

text \<open>
  One execution context: what the host offers (\<open>window\<close>, \<open>window.localStorage\<close>,
  \<open>BroadcastChannel\<close>, and whether \<open>setItem\<close> throws for lack of quota), the durable
  store, the two registries (a \<open>Map\<close> keeps insertion order), the closures of the
  structured and of the scalar units created so far (one counter numbers both), the
  messages posted on channels (by channel name), the \<open>storage\<close> listeners attached to
  \<open>window\<close>, the interval timers and the timeouts running (timer id and owning
  unit), and the lines written by \<open>console.error\<close>. In the hosts modelled here,
  reading \<open>window.localStorage\<close> gives the store or \<open>undefined\<close> and does not throw,
  and the values are those of the data model above, which \<open>JSON.stringify\<close>
  serialises. Two fields are
  ghosts, for stating what was called: \<open>invoked\<close>, the cleanup functions called
  through a registry, in call order, and \<open>syncCalls\<close>, the number of calls of a
  unit's \<open>sync()\<close>.
\<close>

record 'n world =
  hasWindow :: bool
  hasLocalStorage :: bool
  hasBroadcastChannel :: bool
  quotaExceeded :: bool
  localStorage :: "(string \<times> 'n payload) list"
  syncFunctions :: "(string option \<times> sync_fn) list"
  cleanupFunctions :: "(string option \<times> cleanup_fn) list"
  units :: "nat \<Rightarrow> 'n sync_unit option"
  signals :: "nat \<Rightarrow> 'n signal_unit option"
  nextUnit :: nat
  nextTimer :: nat
  posted :: "(string \<times> 'n payload) list"
  storageListeners :: "nat list"
  intervals :: "(nat \<times> nat) list"
  timeouts :: "(nat \<times> nat) list"
  console :: "string list"
  invoked :: "cleanup_fn list"
  syncCalls :: nat

subsection \<open>Statements that may throw\<close>

text \<open>A statement ends normally or throws; either way the state it reached stays.\<close>

datatype 's outcome = Done 's | Threw error 's

fun state_of :: "'s outcome \<Rightarrow> 's" where
  "state_of (Done s) = s"
| "state_of (Threw e s) = s"

fun threw :: "'s outcome \<Rightarrow> bool" where
  "threw (Done s) = False"
| "threw (Threw e s) = True"

definition and_then :: "('s \<Rightarrow> 's outcome) \<Rightarrow> ('s \<Rightarrow> 's outcome) \<Rightarrow> 's \<Rightarrow> 's outcome" where
  "and_then f g s = (case f s of Done s' \<Rightarrow> g s' | Threw e s' \<Rightarrow> Threw e s')"

definition try_catch :: "('s \<Rightarrow> 's outcome) \<Rightarrow> (error \<Rightarrow> 's \<Rightarrow> 's outcome) \<Rightarrow> 's \<Rightarrow> 's outcome" where
  "try_catch body handler s = (case body s of Done s' \<Rightarrow> Done s' | Threw e s' \<Rightarrow> handler e s')"

definition console_error :: "string \<Rightarrow> error \<Rightarrow> 'n world \<Rightarrow> 'n world outcome" where
  "console_error msg e w = Done (w\<lparr>console := console w @ [msg]\<rparr>)"

definition upd_unit :: "nat \<Rightarrow> ('n sync_unit \<Rightarrow> 'n sync_unit) \<Rightarrow> 'n world \<Rightarrow> 'n world" where
  "upd_unit uid f w = w\<lparr>units := (units w)(uid := map_option f (units w uid))\<rparr>"

text \<open>The template string \<open>`syncstore-${key}`\<close>; a missing key prints as \<open>undefined\<close>.\<close>

definition storeKey :: "string option \<Rightarrow> string" where
  "storeKey k = ''syncstore-'' @ (case k of None \<Rightarrow> ''undefined'' | Some s \<Rightarrow> s)"

subsection \<open>Applying an incoming envelope\<close>

text \<open>The block the three listeners share:
  \<^verbatim>\<open>if (isValidSyncData(parsedData) && parsedData.timestamp > lastUpdate()) {
    setStore(() => parsedData.data); setLastUpdate(parsedData.timestamp); }\<close>
  The watermark is set also when \<open>setStore\<close> had nothing to do.\<close>

definition receive :: "('n::{zero,linorder}) jsvalue \<Rightarrow> 'n sync_unit \<Rightarrow> 'n sync_unit" where
  "receive parsedData u =
     (if isValidSyncData parsedData then
        (case get_property parsedData ''timestamp'' of
           JNum t \<Rightarrow>
             if lastUpdate u < t
             then u\<lparr>store := setStore (store u) (get_property parsedData ''data''),
                    lastUpdate := t\<rparr>
             else u
         | _ \<Rightarrow> u)
      else u)"

text \<open>\<open>JSON.parse\<close> followed by that block, inside the listener's \<open>try\<close>.\<close>

definition parse_and_receive :: "nat \<Rightarrow> ('n::{zero,linorder}) payload \<Rightarrow> 'n world \<Rightarrow> 'n world outcome" where
  "parse_and_receive uid raw w =
     (case JSON_parse raw of
        Inl e \<Rightarrow> Threw e w
      | Inr parsedData \<Rightarrow> Done (upd_unit uid (receive parsedData) w))"

text \<open>The three listeners: \<open>channel.onmessage\<close>, the \<open>storage\<close> listener (for an
  event with the unit's store key and a truthy new value), and the callback of the
  polling timer (which parses only a stored text that differs from the one it saw
  last, and remembers it once it has parsed). Each logs what its \<open>try\<close> block throws.\<close>

definition onmessage :: "nat \<Rightarrow> ('n::{zero,linorder}) payload \<Rightarrow> 'n world \<Rightarrow> 'n world outcome" where
  "onmessage uid event_data =
     try_catch (parse_and_receive uid event_data)
               (console_error ''Failed to parse sync message:'')"

definition storageListener_fn ::
  "nat \<Rightarrow> string option \<Rightarrow> ('n::{zero,linorder}) payload option \<Rightarrow> 'n world \<Rightarrow> 'n world outcome" where
  "storageListener_fn uid event_key event_newValue w =
     (case units w uid of
        None \<Rightarrow> Done w
      | Some u \<Rightarrow>
          if event_key = Some (storeKey (key u)) \<and> truthy_text event_newValue then
            (case event_newValue of
               None \<Rightarrow> Done w
             | Some raw \<Rightarrow>
                 try_catch (parse_and_receive uid raw)
                           (console_error ''Failed to parse localStorage data:'') w)
          else Done w)"

definition getItem :: "'n world \<Rightarrow> string \<Rightarrow> 'n payload option" where
  "getItem w k = map_of (localStorage w) k"

definition poll_body :: "nat \<Rightarrow> ('n::{zero,linorder}) world \<Rightarrow> 'n world outcome" where
  "poll_body uid w =
     (case units w uid of
        None \<Rightarrow> Done w
      | Some u \<Rightarrow>
          let newData = (if hasLocalStorage w then getItem w (storeKey (key u)) else None) in
          if newData \<noteq> lastData u \<and> truthy_text newData then
            (case newData of
               None \<Rightarrow> Done w
             | Some raw \<Rightarrow>
                 and_then (parse_and_receive uid raw)
                          (\<lambda>w'. Done (upd_unit uid (\<lambda>u'. u'\<lparr>lastData := newData\<rparr>) w')) w)
          else Done w)"

definition poll_tick :: "nat \<Rightarrow> ('n::{zero,linorder}) world \<Rightarrow> 'n world outcome" where
  "poll_tick uid = try_catch (poll_body uid) (console_error ''Failed to poll data:'')"


subsection \<open>\<open>sync\<close>\<close>

text \<open>The host's \<open>localStorage.setItem\<close> and \<open>removeItem\<close>, and \<open>postMessage\<close> on the
  unit's channel.\<close>

definition setItem :: "string \<Rightarrow> 'n payload \<Rightarrow> 'n world \<Rightarrow> 'n world outcome" where
  "setItem k v w =
     (if quotaExceeded w then Threw (JsError ''QuotaExceededError'' ''The quota has been exceeded.'') w
      else Done (w\<lparr>localStorage := AList.update k v (localStorage w)\<rparr>))"

definition removeItem :: "string \<Rightarrow> 'n world \<Rightarrow> 'n world" where
  "removeItem k w = w\<lparr>localStorage := AList.delete k (localStorage w)\<rparr>"

definition postMessage :: "nat \<Rightarrow> 'n payload \<Rightarrow> 'n world \<Rightarrow> 'n world outcome" where
  "postMessage uid raw w =
     (case units w uid of
        None \<Rightarrow> Done w
      | Some u \<Rightarrow>
          (case channel u of
             Some ChanOpen \<Rightarrow> Done (w\<lparr>posted := posted w @ [(storeKey (key u), raw)]\<rparr>)
           | Some ChanClosed \<Rightarrow> Threw (JsError ''InvalidStateError'' ''Channel is closed'') w
           | None \<Rightarrow> Threw (JsError ''TypeError'' ''channel is null'') w))"

text \<open>The test of the inner \<open>catch\<close> of \<open>sync\<close>, and the two steps inside its
  \<open>try\<close>: the write to the durable store, then the broadcast on a channel that is
  there and not marked closed.\<close>

definition is_closed_error :: "error \<Rightarrow> bool" where
  "is_closed_error e \<longleftrightarrow>
     sublist ''Channel is closed'' (err_message e) \<or> err_name e = ''InvalidStateError''"

definition save_step :: "nat \<Rightarrow> 'n payload \<Rightarrow> 'n world \<Rightarrow> 'n world outcome" where
  "save_step uid raw w =
     (case units w uid of
        None \<Rightarrow> Done w
      | Some u \<Rightarrow>
          if hasWindow w \<and> hasLocalStorage w then setItem (storeKey (key u)) raw w else Done w)"

definition broadcast_step :: "nat \<Rightarrow> 'n payload \<Rightarrow> 'n world \<Rightarrow> 'n world outcome" where
  "broadcast_step uid raw w =
     (case units w uid of
        None \<Rightarrow> Done w
      | Some u \<Rightarrow>
          if storageType u = Broadcast \<and> hasWindow w \<and> hasBroadcastChannel w
             \<and> channel u \<noteq> None \<and> \<not> channelClosed u
          then try_catch (postMessage uid raw)
                 (\<lambda>e w'. if is_closed_error e
                          then Done (upd_unit uid (\<lambda>u'. u'\<lparr>channelClosed := True, channel := None\<rparr>) w')
                          else Threw e w') w
          else Done w)"

text \<open>The envelope \<open>{data: store, timestamp}\<close> of a unit at a clock reading.\<close>

definition envelope :: "'n jsvalue \<Rightarrow> 'n \<Rightarrow> 'n jsvalue" where
  "envelope d t = JObj [(''data'', d), (''timestamp'', JNum t)]"

text \<open>\<open>sync()\<close>, with the reading of \<open>Date.now()\<close> it takes.\<close>

definition sync :: "nat \<Rightarrow> 'n \<Rightarrow> 'n world \<Rightarrow> 'n world outcome" where
  "sync uid timestamp w =
     (case units w uid of
        None \<Rightarrow> Done w
      | Some u \<Rightarrow>
          let w1 = upd_unit uid (\<lambda>u'. u'\<lparr>lastUpdate := timestamp\<rparr>)
                     (w\<lparr>syncCalls := Suc (syncCalls w)\<rparr>);
              raw = JSON_stringify (envelope (store u) timestamp)
          in try_catch (and_then (save_step uid raw) (broadcast_step uid raw))
                       (console_error ''Failed to sync data:'') w1)"

subsection \<open>Construction\<close>

definition loadExistingData :: "nat \<Rightarrow> ('n::{zero,linorder}) world \<Rightarrow> bool \<times> 'n world" where
  "loadExistingData uid w =
     (case units w uid of
        None \<Rightarrow> (False, w)
      | Some u \<Rightarrow>
          if \<not> hasWindow w \<or> \<not> hasLocalStorage w then (False, w)
          else
            let existingData = getItem w (storeKey (key u)) in
            if truthy_text existingData then
              (case existingData of
                 None \<Rightarrow> (False, w)
               | Some raw \<Rightarrow>
                   (case JSON_parse raw of
                      Inl e \<Rightarrow> (False, state_of (console_error ''Failed to load existing data:'' e w))
                    | Inr parsedData \<Rightarrow>
                        if isValidSyncData parsedData then
                          (case get_property parsedData ''timestamp'' of
                             JNum t \<Rightarrow>
                               (True, upd_unit uid
                                  (\<lambda>u'. u'\<lparr>store := setStore (store u') (get_property parsedData ''data''),
                                            lastUpdate := t\<rparr>) w)
                           | _ \<Rightarrow> (False, w))
                        else (False, w)))
            else (False, w))"

text \<open>The transport set up at construction: a channel with \<open>onmessage\<close>, or else the
  \<open>storage\<close> listener and, when \<open>pollingInterval\<close> is truthy, the polling timer.\<close>

definition init_transport :: "nat \<Rightarrow> 'n options \<Rightarrow> 'n world \<Rightarrow> 'n world" where
  "init_transport uid opts w =
     (case units w uid of
        None \<Rightarrow> w
      | Some u \<Rightarrow>
          if storageType u = Broadcast \<and> hasWindow w \<and> hasBroadcastChannel w then
            upd_unit uid (\<lambda>u'. u'\<lparr>channel := Some ChanOpen\<rparr>) w
          else if hasWindow w then
            let w1 = (upd_unit uid (\<lambda>u'. u'\<lparr>storageListener := True\<rparr>) w)
                       \<lparr>storageListeners := storageListeners w @ [uid]\<rparr>
            in (case opt_pollingInterval opts of
                  None \<Rightarrow> w1
                | Some ms \<Rightarrow>
                    if ms = 0 then w1
                    else
                      (upd_unit uid
                         (\<lambda>u'. u'\<lparr>lastData := (if hasLocalStorage w1 then getItem w1 (storeKey (key u)) else None),
                                  pollingInterval := Some (nextTimer w1)\<rparr>) w1)
                        \<lparr>intervals := intervals w1 @ [(nextTimer w1, uid)],
                         nextTimer := Suc (nextTimer w1)\<rparr>)
          else w)"

text \<open>\<open>syncFunctions.set\<close> and \<open>cleanupFunctions.set\<close>: the registries are keyed by
  the key as given, and a \<open>Map\<close> keeps one entry per key.\<close>

definition register_sync :: "string option \<Rightarrow> sync_fn \<Rightarrow> 'n world \<Rightarrow> 'n world" where
  "register_sync k f w = w\<lparr>syncFunctions := AList.update k f (syncFunctions w)\<rparr>"

definition register_cleanup :: "string option \<Rightarrow> cleanup_fn \<Rightarrow> 'n world \<Rightarrow> 'n world" where
  "register_cleanup k f w = w\<lparr>cleanupFunctions := AList.update k f (cleanupFunctions w)\<rparr>"

text \<open>\<open>createSyncStore(options)\<close>, with the readings of \<open>Date.now()\<close> taken for the
  initial watermark and by the initial \<open>sync()\<close>. The new unit's closure gets the id
  \<open>nextUnit\<close>; \<open>createStore(initialValue)\<close> makes the object given the store.
  (\<open>onCleanup\<close> belongs to the reactive library and is left out.)\<close>

definition createSyncStore ::
  "('n::{zero,linorder}) options option \<Rightarrow> 'n \<Rightarrow> 'n \<Rightarrow> 'n world \<Rightarrow> 'n world outcome" where
  "createSyncStore options now0 now1 w =
     (case options of
        None \<Rightarrow> Threw (JsError ''Error'' ''SyncStore options are required'') w
      | Some opts \<Rightarrow>
          let uid = nextUnit w;
              persistOnLoad = (case opt_persistOnLoad opts of None \<Rightarrow> True | Some b \<Rightarrow> b);
              u0 = \<lparr>key = opt_key opts,
                    storageType = (case opt_storageType opts of None \<Rightarrow> Broadcast | Some t \<Rightarrow> t),
                    store = JObj (opt_initialValue opts),
                    lastUpdate = now0,
                    channel = None, channelClosed = False, storageListener = False,
                    pollingInterval = None, lastData = None\<rparr>;
              w1 = w\<lparr>units := (units w)(uid \<mapsto> u0), nextUnit := Suc uid\<rparr>;
              w2 = register_sync (opt_key opts) (StoreSync uid) w1;
              w3 = init_transport uid opts w2;
              register = (\<lambda>w'. Done (register_cleanup (opt_key opts) (StoreCleanup uid) w'))
          in if persistOnLoad then
               (case loadExistingData uid w3 of
                  (True, w4) \<Rightarrow> register w4
                | (False, w4) \<Rightarrow> and_then (sync uid now1) register w4)
             else register w3)"

subsection \<open>Teardown\<close>

text \<open>The four blocks of \<open>cleanup\<close>, in order: close the channel (an error of
  \<open>close()\<close> is ignored) and drop the handle; remove the \<open>storage\<close> listener; clear
  the polling timer (\<open>window.clearInterval\<close>, a \<open>ReferenceError\<close> where there is no
  \<open>window\<close>); delete the unit's entries from both registries.\<close>

definition close_channel :: "nat \<Rightarrow> 'n world \<Rightarrow> 'n world outcome" where
  "close_channel uid w =
     (case units w uid of
        None \<Rightarrow> Done w
      | Some u \<Rightarrow>
          if channel u \<noteq> None
          then Done (upd_unit uid (\<lambda>u'. u'\<lparr>channelClosed := True, channel := None\<rparr>) w)
          else Done w)"

definition remove_listener :: "nat \<Rightarrow> 'n world \<Rightarrow> 'n world outcome" where
  "remove_listener uid w =
     (case units w uid of
        None \<Rightarrow> Done w
      | Some u \<Rightarrow>
          if storageListener u \<and> hasWindow w
          then Done (w\<lparr>storageListeners := removeAll uid (storageListeners w)\<rparr>)
          else Done w)"

definition clear_interval :: "nat \<Rightarrow> 'n world \<Rightarrow> 'n world outcome" where
  "clear_interval uid w =
     (case units w uid of
        None \<Rightarrow> Done w
      | Some u \<Rightarrow>
          (case pollingInterval u of
             None \<Rightarrow> Done w
           | Some timer \<Rightarrow>
               if hasWindow w
               then Done (w\<lparr>intervals := AList.delete timer (intervals w)\<rparr>)
               else Threw (JsError ''ReferenceError'' ''window is not defined'') w))"

definition deregister :: "nat \<Rightarrow> 'n world \<Rightarrow> 'n world outcome" where
  "deregister uid w =
     (case units w uid of
        None \<Rightarrow> Done w
      | Some u \<Rightarrow>
          Done (w\<lparr>syncFunctions := AList.delete (key u) (syncFunctions w),
                  cleanupFunctions := AList.delete (key u) (cleanupFunctions w)\<rparr>))"

definition cleanup :: "nat \<Rightarrow> 'n world \<Rightarrow> 'n world outcome" where
  "cleanup uid =
     and_then (close_channel uid)
       (and_then (remove_listener uid)
          (and_then (clear_interval uid) (deregister uid)))"

section \<open>A scalar unit\<close>

text \<open>The template string \<open>`syncsignal-${key}`\<close>.\<close>

definition signalKey :: "string option \<Rightarrow> string" where
  "signalKey k = ''syncsignal-'' @ (case k of None \<Rightarrow> ''undefined'' | Some s \<Rightarrow> s)"

definition upd_signal :: "nat \<Rightarrow> ('n signal_unit \<Rightarrow> 'n signal_unit) \<Rightarrow> 'n world \<Rightarrow> 'n world" where
  "upd_signal i f w = w\<lparr>signals := (signals w)(i := map_option f (signals w i))\<rparr>"

subsection \<open>\<open>sync\<close> of a scalar unit\<close>

text \<open>\<open>channel.postMessage\<close> inside \<open>if (channel)\<close>: the handle stays in the variable
  after \<open>close()\<close>, and posting on a closed handle throws.\<close>

definition signal_postMessage :: "nat \<Rightarrow> 'n payload \<Rightarrow> 'n world \<Rightarrow> 'n world outcome" where
  "signal_postMessage i raw w =
     (case signals w i of
        None \<Rightarrow> Done w
      | Some u \<Rightarrow>
          (case sig_channel u of
             None \<Rightarrow> Done w
           | Some ChanOpen \<Rightarrow> Done (w\<lparr>posted := posted w @ [(signalKey (sig_key u), raw)]\<rparr>)
           | Some ChanClosed \<Rightarrow> Threw (JsError ''InvalidStateError'' ''Channel is closed'') w))"

definition signal_save :: "nat \<Rightarrow> 'n payload \<Rightarrow> 'n world \<Rightarrow> 'n world outcome" where
  "signal_save i raw w =
     (case signals w i of
        None \<Rightarrow> Done w
      | Some u \<Rightarrow>
          if hasWindow w \<and> hasLocalStorage w then setItem (signalKey (sig_key u)) raw w else Done w)"

text \<open>\<open>sync()\<close> of a scalar unit, with the reading of \<open>Date.now()\<close> it takes: inside
  one \<open>try\<close> it serialises \<open>{timestamp, data, type}\<close>, posts on the channel, writes the
  durable store and only then sets the watermark; what is thrown on the way is logged.\<close>

definition signal_sync :: "nat \<Rightarrow> 'n \<Rightarrow> 'n world \<Rightarrow> 'n world outcome" where
  "signal_sync i now w =
     (case signals w i of
        None \<Rightarrow> Done w
      | Some u \<Rightarrow>
          let syncData = JObj [(''timestamp'', JNum now), (''data'', sig_value u),
                               (''type'', JStr (typeof (sig_value u)))]
          in try_catch
               (\<lambda>w'. case serializeData syncData of
                        Inl e \<Rightarrow> Threw e w'
                      | Inr serializedData \<Rightarrow>
                          and_then (signal_postMessage i serializedData)
                            (and_then (signal_save i serializedData)
                               (\<lambda>w''. Done (upd_signal i (\<lambda>u'. u'\<lparr>sig_lastUpdate := now\<rparr>) w''))) w')
               (console_error ''Sync error:'')
               (w\<lparr>syncCalls := Suc (syncCalls w)\<rparr>))"

subsection \<open>Construction of a scalar unit\<close>

text \<open>\<open>loadExistingData\<close> of a scalar unit: as for a structured unit, but decoding with
  \<open>deserializeData\<close> and writing the value whole (\<open>setValue(() => parsedData.data)\<close> on a
  signal).\<close>

definition signal_loadExistingData ::
  "('n jsvalue \<Rightarrow> string option) \<Rightarrow> nat \<Rightarrow> ('n::{zero,linorder}) world \<Rightarrow> bool \<times> 'n world" where
  "signal_loadExistingData newDate i w =
     (case signals w i of
        None \<Rightarrow> (False, w)
      | Some u \<Rightarrow>
          if \<not> hasWindow w \<or> \<not> hasLocalStorage w then (False, w)
          else
            let storedData = getItem w (signalKey (sig_key u)) in
            if truthy_text storedData then
              (case storedData of
                 None \<Rightarrow> (False, w)
               | Some raw \<Rightarrow>
                   (case deserializeData newDate raw of
                      Inl e \<Rightarrow> (False, state_of (console_error ''Failed to load existing data:'' e w))
                    | Inr parsedData \<Rightarrow>
                        if truthy parsedData \<and> isValidSyncData parsedData then
                          (case get_property parsedData ''timestamp'' of
                             JNum t \<Rightarrow>
                               (True, upd_signal i
                                  (\<lambda>u'. u'\<lparr>sig_value := get_property parsedData ''data'',
                                            sig_lastUpdate := t\<rparr>) w)
                           | _ \<Rightarrow> (False, w))
                        else (False, w)))
            else (False, w))"

text \<open>The transport set up at construction, whatever \<open>storageType\<close> says: a channel
  with \<open>onmessage\<close> where the host has \<open>BroadcastChannel\<close>, or else the \<open>storage\<close>
  listener and, when \<open>pollingInterval\<close> is truthy, the polling timer. Either branch
  calls \<open>loadExistingData()\<close>, whatever \<open>persistOnLoad\<close> says. The listeners and the
  timer callback run only after construction; the unit records that they are attached.\<close>

definition signal_transport ::
  "('n jsvalue \<Rightarrow> string option) \<Rightarrow> nat \<Rightarrow> signal_options \<Rightarrow> ('n::{zero,linorder}) world \<Rightarrow> 'n world" where
  "signal_transport newDate i opts w =
     (if hasWindow w \<and> hasBroadcastChannel w then
        snd (signal_loadExistingData newDate i
               (upd_signal i (\<lambda>u'. u'\<lparr>sig_channel := Some ChanOpen\<rparr>) w))
      else if hasWindow w then
        let w1 = (upd_signal i (\<lambda>u'. u'\<lparr>sig_storageListener := True\<rparr>) w)
                   \<lparr>storageListeners := storageListeners w @ [i]\<rparr>;
            w2 = snd (signal_loadExistingData newDate i w1)
        in (case so_pollingInterval opts of
              None \<Rightarrow> w2
            | Some ms \<Rightarrow>
                if ms = 0 then w2
                else
                  (upd_signal i
                     (\<lambda>u'. u'\<lparr>sig_lastData := (if hasLocalStorage w2
                                                 then getItem w2 (signalKey (sig_key u')) else None),
                              sig_pollingIntervalId := Some (nextTimer w2)\<rparr>) w2)
                    \<lparr>intervals := intervals w2 @ [(nextTimer w2, i)],
                     nextTimer := Suc (nextTimer w2)\<rparr>)
      else w)"

text \<open>The block \<open>if (persistOnLoad) { ... }\<close>: load, and \<open>sync()\<close> when nothing was
  loaded.\<close>

definition signal_persist ::
  "('n jsvalue \<Rightarrow> string option) \<Rightarrow> nat \<Rightarrow> 'n \<Rightarrow> ('n::{zero,linorder}) world \<Rightarrow> 'n world outcome" where
  "signal_persist newDate i now1 w =
     (case signal_loadExistingData newDate i w of
        (True, w') \<Rightarrow> Done w'
      | (False, w') \<Rightarrow> signal_sync i now1 w')"

text \<open>\<open>createSyncSignal(initialValue, options)\<close>, with the host's Date constructor and
  the readings of \<open>Date.now()\<close> taken for the initial watermark and by the initial
  \<open>sync()\<close>. Destructuring options that are \<open>undefined\<close> is a \<open>TypeError\<close>; a
  missing key is not looked at. With \<open>autoSync\<close> the setter is replaced by a wrapper
  that calls \<open>sync()\<close> through a throttle timer; the wrapper runs only when the value
  is set after construction.\<close>

definition createSyncSignal ::
  "('n::{zero,linorder}) jsvalue \<Rightarrow> signal_options option \<Rightarrow> ('n jsvalue \<Rightarrow> string option)
     \<Rightarrow> 'n \<Rightarrow> 'n \<Rightarrow> 'n world \<Rightarrow> 'n world outcome" where
  "createSyncSignal initialValue options newDate now0 now1 w =
     (case options of
        None \<Rightarrow> Threw (JsError ''TypeError'' ''Cannot destructure property key of options'') w
      | Some opts \<Rightarrow>
          let i = nextUnit w;
              u0 = \<lparr>sig_key = so_key opts, sig_value = initialValue, sig_lastUpdate = now0,
                    sig_channel = None, sig_storageListener = False, sig_pollingIntervalId = None,
                    sig_throttleTimeout = None,
                    sig_throttleMs = (case so_throttleMs opts of None \<Rightarrow> 50 | Some ms \<Rightarrow> ms),
                    sig_lastData = None, sig_autoSync = False\<rparr>;
              w1 = w\<lparr>signals := (signals w)(i \<mapsto> u0), nextUnit := Suc i\<rparr>;
              w2 = register_sync (so_key opts) (SignalSync i) w1;
              w3 = signal_transport newDate i opts w2
          in and_then
               (\<lambda>w'. if so_persistOnLoad opts \<noteq> Some False
                      then signal_persist newDate i now1 w' else Done w')
               (\<lambda>w'. Done (register_cleanup (so_key opts) (SignalCleanup i)
                              (if so_autoSync opts = Some True
                               then upd_signal i (\<lambda>u'. u'\<lparr>sig_autoSync := True\<rparr>) w'
                               else w')))
               w3)"

subsection \<open>Teardown of a scalar unit\<close>

text \<open>The blocks of its \<open>cleanup\<close>, in order: clear the throttle timer; close the
  channel (\<open>channel?.close()\<close>, the variable keeps the handle); remove the \<open>storage\<close>
  listener; clear the polling timer (\<open>window.clearInterval\<close>, a \<open>ReferenceError\<close>
  where there is no \<open>window\<close>); delete the unit's key from both registries.\<close>

definition signal_clear_throttle :: "nat \<Rightarrow> 'n world \<Rightarrow> 'n world outcome" where
  "signal_clear_throttle i w =
     (case signals w i of
        None \<Rightarrow> Done w
      | Some u \<Rightarrow>
          (case sig_throttleTimeout u of
             None \<Rightarrow> Done w
           | Some timer \<Rightarrow>
               Done ((upd_signal i (\<lambda>u'. u'\<lparr>sig_throttleTimeout := None\<rparr>) w)
                       \<lparr>timeouts := AList.delete timer (timeouts w)\<rparr>)))"

definition signal_close_channel :: "nat \<Rightarrow> 'n world \<Rightarrow> 'n world outcome" where
  "signal_close_channel i w =
     (case signals w i of
        None \<Rightarrow> Done w
      | Some u \<Rightarrow>
          (case sig_channel u of
             None \<Rightarrow> Done w
           | Some h \<Rightarrow> Done (upd_signal i (\<lambda>u'. u'\<lparr>sig_channel := Some ChanClosed\<rparr>) w)))"

definition signal_remove_listener :: "nat \<Rightarrow> 'n world \<Rightarrow> 'n world outcome" where
  "signal_remove_listener i w =
     (case signals w i of
        None \<Rightarrow> Done w
      | Some u \<Rightarrow>
          if sig_storageListener u \<and> hasWindow w
          then Done (w\<lparr>storageListeners := removeAll i (storageListeners w)\<rparr>)
          else Done w)"

definition signal_clear_interval :: "nat \<Rightarrow> 'n world \<Rightarrow> 'n world outcome" where
  "signal_clear_interval i w =
     (case signals w i of
        None \<Rightarrow> Done w
      | Some u \<Rightarrow>
          (case sig_pollingIntervalId u of
             None \<Rightarrow> Done w
           | Some timer \<Rightarrow>
               if hasWindow w
               then Done (w\<lparr>intervals := AList.delete timer (intervals w)\<rparr>)
               else Threw (JsError ''ReferenceError'' ''window is not defined'') w))"

definition signal_deregister :: "nat \<Rightarrow> 'n world \<Rightarrow> 'n world outcome" where
  "signal_deregister i w =
     (case signals w i of
        None \<Rightarrow> Done w
      | Some u \<Rightarrow>
          Done (w\<lparr>syncFunctions := AList.delete (sig_key u) (syncFunctions w),
                  cleanupFunctions := AList.delete (sig_key u) (cleanupFunctions w)\<rparr>))"

definition signal_cleanup :: "nat \<Rightarrow> 'n world \<Rightarrow> 'n world outcome" where
  "signal_cleanup i =
     and_then (signal_clear_throttle i)
       (and_then (signal_close_channel i)
          (and_then (signal_remove_listener i)
             (and_then (signal_clear_interval i) (signal_deregister i))))"

section \<open>The registry facade\<close>

datatype flavor = StoreFlavor | SignalFlavor

definition getSync :: "string \<Rightarrow> 'n world \<Rightarrow> sync_fn option" where
  "getSync k w = map_of (syncFunctions w) (Some k)"

text \<open>Calling a function taken from the cleanup registry.\<close>

fun call_cleanup :: "cleanup_fn \<Rightarrow> 'n world \<Rightarrow> 'n world outcome" where
  "call_cleanup (StoreCleanup uid) w = cleanup uid (w\<lparr>invoked := invoked w @ [StoreCleanup uid]\<rparr>)"
| "call_cleanup (SignalCleanup i) w = signal_cleanup i (w\<lparr>invoked := invoked w @ [SignalCleanup i]\<rparr>)"
| "call_cleanup (ForeignCleanup i throws) w =
     (let w' = w\<lparr>invoked := invoked w @ [ForeignCleanup i throws]\<rparr>
      in if throws then Threw (JsError ''Error'' ''cleanup failed'') w' else Done w')"

definition flavor_prefix :: "flavor \<Rightarrow> string" where
  "flavor_prefix ty = (if ty = SignalFlavor then ''syncsignal-'' else ''syncstore-'')"

definition clearSyncData :: "string \<Rightarrow> flavor \<Rightarrow> 'n world \<Rightarrow> 'n world outcome" where
  "clearSyncData k ty =
     try_catch
       (and_then
          (\<lambda>w. case map_of (cleanupFunctions w) (Some k) of
                 Some f \<Rightarrow> call_cleanup f w
               | None \<Rightarrow> Done w)
          (\<lambda>w. let w1 = (if hasWindow w \<and> hasLocalStorage w
                          then removeItem (flavor_prefix ty @ k) w else w)
                in Done (w1\<lparr>syncFunctions := AList.delete (Some k) (syncFunctions w1),
                            cleanupFunctions := AList.delete (Some k) (cleanupFunctions w1)\<rparr>)))
       (console_error ''Failed to clear sync data:'')"

text \<open>\<open>cleanupFunctions.forEach\<close> over the entries present when the sweep starts: an
  entry deleted before it is reached is not visited; no function modelled here adds one.\<close>

fun forEach_cleanup :: "(string option \<times> cleanup_fn) list \<Rightarrow> 'n world \<Rightarrow> 'n world outcome" where
  "forEach_cleanup [] w = Done w"
| "forEach_cleanup (e # es) w =
     (if map_of (cleanupFunctions w) (fst e) = Some (snd e)
      then and_then (try_catch (call_cleanup (snd e)) (console_error ''Error during cleanup:''))
                    (forEach_cleanup es) w
      else forEach_cleanup es w)"

definition keysToRemove :: "'n world \<Rightarrow> string list" where
  "keysToRemove w =
     filter (\<lambda>k. k \<noteq> [] \<and> (prefix ''syncstore-'' k \<or> prefix ''syncsignal-'' k))
            (map fst (localStorage w))"

definition clearAllSyncData :: "'n world \<Rightarrow> 'n world outcome" where
  "clearAllSyncData =
     try_catch
       (and_then
          (\<lambda>w. forEach_cleanup (cleanupFunctions w) w)
          (\<lambda>w. let w1 = (if hasWindow w \<and> hasLocalStorage w
                          then fold removeItem (keysToRemove w) w else w)
                in Done (w1\<lparr>syncFunctions := [], cleanupFunctions := []\<rparr>)))
       (console_error ''Failed to clear all sync data:'')"


section \<open>Deliveries and what is observed of a unit\<close>

text \<open>What the host can deliver to a unit: a message on its channel, a \<open>storage\<close>
  event of \<open>window\<close> (with the event's \<open>key\<close> and \<open>newValue\<close>), or a tick of its
  polling timer.\<close>

datatype 'n incoming =
    ChannelMessage "'n payload"
  | StorageEvent "string option" "'n payload option"
  | PollTick

text \<open>The host calls a listener only while it is attached: \<open>onmessage\<close> while the
  unit's channel is open, the \<open>storage\<close> listener while it is registered on
  \<open>window\<close>, the timer callback while the unit's timer runs.\<close>

fun attached :: "'n sync_unit \<Rightarrow> nat \<Rightarrow> 'n world \<Rightarrow> 'n incoming \<Rightarrow> bool" where
  "attached u uid w (ChannelMessage raw) = (channel u = Some ChanOpen)"
| "attached u uid w (StorageEvent k v) = (uid \<in> set (storageListeners w))"
| "attached u uid w PollTick =
     (case pollingInterval u of
        None \<Rightarrow> False
      | Some timer \<Rightarrow> map_of (intervals w) timer = Some uid)"

fun listener :: "nat \<Rightarrow> ('n::{zero,linorder}) incoming \<Rightarrow> 'n world \<Rightarrow> 'n world outcome" where
  "listener uid (ChannelMessage raw) w = onmessage uid raw w"
| "listener uid (StorageEvent k v) w = storageListener_fn uid k v w"
| "listener uid PollTick w = poll_tick uid w"

definition deliver :: "nat \<Rightarrow> ('n::{zero,linorder}) incoming \<Rightarrow> 'n world \<Rightarrow> 'n world outcome" where
  "deliver uid inc w =
     (case units w uid of
        None \<Rightarrow> Done w
      | Some u \<Rightarrow> if attached u uid w inc then listener uid inc w else Done w)"

text \<open>The payload a delivery hands to the unit, if any: the message, the new value of
  a \<open>storage\<close> event for the unit's own store key, or the stored text when the poll
  finds it different from the text it saw last.\<close>

fun payload_of :: "'n sync_unit \<Rightarrow> 'n world \<Rightarrow> 'n incoming \<Rightarrow> 'n payload option" where
  "payload_of u w (ChannelMessage raw) = Some raw"
| "payload_of u w (StorageEvent k v) =
     (if k = Some (storeKey (key u)) \<and> truthy_text v then v else None)"
| "payload_of u w PollTick =
     (let newData = (if hasLocalStorage w then getItem w (storeKey (key u)) else None)
      in if newData \<noteq> lastData u \<and> truthy_text newData then newData else None)"

text \<open>A delivery hands a payload to a unit when its listener is attached and gets that
  payload.\<close>

definition handed :: "'n sync_unit \<Rightarrow> nat \<Rightarrow> 'n world \<Rightarrow> 'n incoming \<Rightarrow> 'n payload \<Rightarrow> bool" where
  "handed u uid w inc raw \<longleftrightarrow> attached u uid w inc \<and> payload_of u w inc = Some raw"

text \<open>The envelope a payload decodes to: its \<open>data\<close> and \<open>timestamp\<close> when the text
  parses and the result passes \<open>isValidSyncData\<close>.\<close>

definition decode_envelope :: "('n::{zero,linorder}) payload \<Rightarrow> ('n jsvalue \<times> 'n) option" where
  "decode_envelope raw =
     (case JSON_parse raw of
        Inl e \<Rightarrow> None
      | Inr d \<Rightarrow>
          if isValidSyncData d then
            (case get_property d ''timestamp'' of JNum t \<Rightarrow> Some (get_property d ''data'', t) | _ \<Rightarrow> None)
          else None)"

text \<open>Value and watermark of a unit.\<close>

definition cell :: "nat \<Rightarrow> 'n world \<Rightarrow> ('n jsvalue \<times> 'n) option" where
  "cell uid w = map_option (\<lambda>u. (store u, lastUpdate u)) (units w uid)"

section \<open>Example contexts\<close>

text \<open>A browser context with nothing stored and no unit yet, and the options of the
  counter store of the demo.\<close>

definition browser :: "int world" where
  "browser =
     \<lparr>hasWindow = True, hasLocalStorage = True, hasBroadcastChannel = True, quotaExceeded = False,
      localStorage = [], syncFunctions = [], cleanupFunctions = [], units = (\<lambda>i. None),
      signals = (\<lambda>i. None), nextUnit = 0, nextTimer = 1, posted = [], storageListeners = [],
      intervals = [], timeouts = [], console = [], invoked = [], syncCalls = 0\<rparr>"

definition counter_options :: "int options" where
  "counter_options =
     \<lparr>opt_key = Some ''counter'', opt_initialValue = [(''count'', JNum 0)],
      opt_storageType = None, opt_persistOnLoad = None, opt_pollingInterval = None\<rparr>"

text \<open>The counter unit as \<open>createSyncStore\<close> leaves it at clock reading 10, and the
  context holding it.\<close>

definition counter_unit :: "int sync_unit" where
  "counter_unit =
     \<lparr>key = Some ''counter'', storageType = Broadcast, store = JObj [(''count'', JNum 0)],
      lastUpdate = 10, channel = Some ChanOpen, channelClosed = False, storageListener = False,
      pollingInterval = None, lastData = None\<rparr>"

definition counter_tab :: "int world" where
  "counter_tab = state_of (createSyncStore (Some counter_options) 10 10 browser)"

section \<open>Closed forms\<close>

text \<open>The context \<open>sync()\<close> leaves behind, written out by cases (shown equal to \<open>sync\<close>
  below): the quota failure is logged by the outer \<open>catch\<close> and nothing is broadcast;
  otherwise the envelope is stored if there is a store, and then posted on an open
  channel, or a closed handle is dropped and marked closed.\<close>

definition sync_result :: "'n sync_unit \<Rightarrow> nat \<Rightarrow> 'n \<Rightarrow> 'n world \<Rightarrow> 'n world" where
  "sync_result u uid t w =
     (let w1 = w\<lparr>syncCalls := Suc (syncCalls w), units := (units w)(uid \<mapsto> u\<lparr>lastUpdate := t\<rparr>)\<rparr>;
          raw = JSON_stringify (envelope (store u) t);
          k = storeKey (key u)
      in if hasWindow w \<and> hasLocalStorage w \<and> quotaExceeded w
         then w1\<lparr>console := console w @ [''Failed to sync data:'']\<rparr>
         else
           let w2 = (if hasWindow w \<and> hasLocalStorage w
                     then w1\<lparr>localStorage := AList.update k raw (localStorage w)\<rparr> else w1)
           in if storageType u = Broadcast \<and> hasWindow w \<and> hasBroadcastChannel w \<and> \<not> channelClosed u
              then (case channel u of
                      None \<Rightarrow> w2
                    | Some ChanOpen \<Rightarrow> w2\<lparr>posted := posted w @ [(k, raw)]\<rparr>
                    | Some ChanClosed \<Rightarrow>
                        w2\<lparr>units := (units w)(uid \<mapsto> u\<lparr>lastUpdate := t, channelClosed := True, channel := None\<rparr>)\<rparr>)
              else w2)"

text \<open>The valid envelope persisted under a store key, as \<open>loadExistingData\<close> finds it.\<close>

definition stored_envelope :: "('n::{zero,linorder}) world \<Rightarrow> string \<Rightarrow> ('n jsvalue \<times> 'n) option" where
  "stored_envelope w k =
     (if hasWindow w \<and> hasLocalStorage w
      then (case getItem w k of None \<Rightarrow> None | Some raw \<Rightarrow> decode_envelope raw)
      else None)"


text \<open>The closure a call of \<open>createSyncStore\<close> starts from, and the context once the
  unit is allocated, its \<open>sync\<close> registered and its transport set up, before the
  \<open>persistOnLoad\<close> block runs.\<close>

definition fresh_unit :: "'n options \<Rightarrow> 'n \<Rightarrow> 'n sync_unit" where
  "fresh_unit opts now0 =
     \<lparr>key = opt_key opts,
      storageType = (case opt_storageType opts of None \<Rightarrow> Broadcast | Some t \<Rightarrow> t),
      store = JObj (opt_initialValue opts), lastUpdate = now0,
      channel = None, channelClosed = False, storageListener = False,
      pollingInterval = None, lastData = None\<rparr>"

definition before_load :: "'n options \<Rightarrow> 'n \<Rightarrow> 'n world \<Rightarrow> 'n world" where
  "before_load opts now0 w =
     init_transport (nextUnit w) opts
       (register_sync (opt_key opts) (StoreSync (nextUnit w))
          (w\<lparr>units := (units w)(nextUnit w \<mapsto> fresh_unit opts now0), nextUnit := Suc (nextUnit w)\<rparr>))"

text \<open>A browser context in which another context has persisted \<open>{count: 7}\<close> for the
  counter at clock reading 5.\<close>

definition stocked_browser :: "int world" where
  "stocked_browser =
     browser\<lparr>localStorage := [(''syncstore-counter'', Json (envelope (JObj [(''count'', JNum 7)]) 5))]\<rparr>"

text \<open>That context after \<open>loadExistingData\<close> found no valid envelope: a stored text
  that does not parse has been logged.\<close>

definition after_failed_load :: "('n::{zero,linorder}) options \<Rightarrow> 'n \<Rightarrow> 'n world \<Rightarrow> 'n world" where
  "after_failed_load opts now0 w =
     (let w3 = before_load opts now0 w in
      if hasWindow w \<and> hasLocalStorage w
      then (case getItem w (storeKey (opt_key opts)) of
              Some (Malformed s) \<Rightarrow>
                if s \<noteq> [] then w3\<lparr>console := console w3 @ [''Failed to load existing data:'']\<rparr> else w3
            | _ \<Rightarrow> w3)
      else w3)"

text \<open>The values JSON represents as they are: no \<open>undefined\<close> and no Date anywhere.\<close>

fun json_plain :: "'n jsvalue \<Rightarrow> bool" where
  "json_plain JUndefined = False"
| "json_plain JNull = True"
| "json_plain (JBool b) = True"
| "json_plain (JNum n) = True"
| "json_plain (JStr s) = True"
| "json_plain (JArr vs) = list_all json_plain vs"
| "json_plain (JObj kvs) = list_all (\<lambda>kv. json_plain (snd kv)) kvs"
| "json_plain (JDate d) = False"

text \<open>A unit with its channel closed as \<open>cleanup\<close> closes it, and the context
  \<open>cleanup\<close> leaves when it does not throw (shown equal to \<open>cleanup\<close> below).\<close>

definition closed_unit :: "'n sync_unit \<Rightarrow> 'n sync_unit" where
  "closed_unit u = (if channel u \<noteq> None then u\<lparr>channelClosed := True, channel := None\<rparr> else u)"

definition cleanup_result :: "'n sync_unit \<Rightarrow> nat \<Rightarrow> 'n world \<Rightarrow> 'n world" where
  "cleanup_result u uid w =
     w\<lparr>units := (units w)(uid \<mapsto> closed_unit u),
       storageListeners := (if storageListener u \<and> hasWindow w
                            then removeAll uid (storageListeners w) else storageListeners w),
       intervals := (case pollingInterval u of
                       None \<Rightarrow> intervals w
                     | Some timer \<Rightarrow> AList.delete timer (intervals w)),
       syncFunctions := AList.delete (key u) (syncFunctions w),
       cleanupFunctions := AList.delete (key u) (cleanupFunctions w)\<rparr>"

text \<open>The counter store in durable-only mode with a polling interval of 500 ms, the
  unit \<open>createSyncStore\<close> makes of it at reading 10, and the context holding it.\<close>

definition polling_options :: "int options" where
  "polling_options =
     counter_options\<lparr>opt_storageType := Some LocalStorageOnly, opt_pollingInterval := Some 500\<rparr>"

definition polling_unit :: "int sync_unit" where
  "polling_unit =
     \<lparr>key = Some ''counter'', storageType = LocalStorageOnly, store = JObj [(''count'', JNum 0)],
      lastUpdate = 10, channel = None, channelClosed = False, storageListener = True,
      pollingInterval = Some 1, lastData = None\<rparr>"

definition polling_tab :: "int world" where
  "polling_tab = state_of (createSyncStore (Some polling_options) 10 10 browser)"

text \<open>What \<open>clearSyncData\<close> does once the registered cleanup has run without throwing:
  remove the store entry of the given flavor, delete the key from both registries.\<close>

definition clear_entry :: "string \<Rightarrow> flavor \<Rightarrow> 'n world \<Rightarrow> 'n world" where
  "clear_entry k ty w =
     (let w1 = (if hasWindow w \<and> hasLocalStorage w then removeItem (flavor_prefix ty @ k) w else w)
      in w1\<lparr>syncFunctions := AList.delete (Some k) (syncFunctions w1),
             cleanupFunctions := AList.delete (Some k) (cleanupFunctions w1)\<rparr>)"

text \<open>A scalar unit after the first two blocks of its \<open>cleanup\<close>, the context after
  the first three blocks, and the context \<open>cleanup\<close> leaves when it does not throw
  (shown equal to it below).\<close>

definition signal_closed :: "'n signal_unit \<Rightarrow> 'n signal_unit" where
  "signal_closed u =
     u\<lparr>sig_throttleTimeout := None, sig_channel := map_option (\<lambda>h. ChanClosed) (sig_channel u)\<rparr>"

definition signal_detached :: "'n signal_unit \<Rightarrow> nat \<Rightarrow> 'n world \<Rightarrow> 'n world" where
  "signal_detached u i w =
     w\<lparr>signals := (signals w)(i \<mapsto> signal_closed u),
       timeouts := (case sig_throttleTimeout u of
                      None \<Rightarrow> timeouts w
                    | Some timer \<Rightarrow> AList.delete timer (timeouts w)),
       storageListeners := (if sig_storageListener u \<and> hasWindow w
                            then removeAll i (storageListeners w) else storageListeners w)\<rparr>"

definition signal_cleanup_result :: "'n signal_unit \<Rightarrow> nat \<Rightarrow> 'n world \<Rightarrow> 'n world" where
  "signal_cleanup_result u i w =
     w\<lparr>signals := (signals w)
          (i \<mapsto> u\<lparr>sig_throttleTimeout := None,
                   sig_channel := map_option (\<lambda>h. ChanClosed) (sig_channel u)\<rparr>),
       timeouts := (case sig_throttleTimeout u of
                      None \<Rightarrow> timeouts w
                    | Some timer \<Rightarrow> AList.delete timer (timeouts w)),
       storageListeners := (if sig_storageListener u \<and> hasWindow w
                            then removeAll i (storageListeners w) else storageListeners w),
       intervals := (case sig_pollingIntervalId u of
                       None \<Rightarrow> intervals w
                     | Some timer \<Rightarrow> AList.delete timer (intervals w)),
       syncFunctions := AList.delete (sig_key u) (syncFunctions w),
       cleanupFunctions := AList.delete (sig_key u) (cleanupFunctions w)\<rparr>"

text \<open>A host whose Date constructor reads ISO texts as they are written by
  \<open>toISOString\<close> and makes an invalid Date of anything else; the options of a scalar
  unit under the key \<open>counter\<close>, and the browser context after a scalar unit holding 1
  was created with them at clock reading 10.\<close>

definition iso_dates :: "int jsvalue \<Rightarrow> string option" where
  "iso_dates x =
     (case x of
        JStr s \<Rightarrow> if length s = 24 \<and> s ! 10 = CHR ''T'' \<and> s ! 23 = CHR ''Z'' then Some s else None
      | _ \<Rightarrow> None)"

definition scalar_options :: signal_options where
  "scalar_options =
     \<lparr>so_key = Some ''counter'', so_throttleMs = None, so_autoSync = None,
      so_pollingInterval = None, so_persistOnLoad = None\<rparr>"

definition scalar_tab :: "int world" where
  "scalar_tab = state_of (createSyncSignal (JNum 1) (Some scalar_options) iso_dates 10 10 browser)"

definition scalar_unit :: "int signal_unit" where
  "scalar_unit =
     \<lparr>sig_key = Some ''counter'', sig_value = JNum 1, sig_lastUpdate = 10,
      sig_channel = Some ChanOpen, sig_storageListener = False, sig_pollingIntervalId = None,
      sig_throttleTimeout = None, sig_throttleMs = 50, sig_lastData = None, sig_autoSync = False\<rparr>"

text \<open>What a step in the construction of the scalar unit \<open>i\<close> leaves alone: the
  registries, the structured units, the other scalar units, the unit counter, the host,
  and the key of the unit.\<close>

definition signal_step :: "nat \<Rightarrow> 'n world \<Rightarrow> 'n world \<Rightarrow> bool" where
  "signal_step i w w' \<longleftrightarrow>
     syncFunctions w' = syncFunctions w \<and> cleanupFunctions w' = cleanupFunctions w
     \<and> nextUnit w' = nextUnit w \<and> units w' = units w
     \<and> hasWindow w' = hasWindow w \<and> hasLocalStorage w' = hasLocalStorage w
     \<and> hasBroadcastChannel w' = hasBroadcastChannel w \<and> quotaExceeded w' = quotaExceeded w
     \<and> invoked w' = invoked w
     \<and> (\<forall>j. j \<noteq> i \<longrightarrow> signals w' j = signals w j)
     \<and> (\<forall>u. signals w i = Some u \<longrightarrow> (\<exists>u'. signals w' i = Some u' \<and> sig_key u' = sig_key u))"

text \<open>One step of the sweep of \<open>clearAllSyncData\<close>: an entry still registered has its
  cleanup called inside \<open>try\<close>, and what it throws is logged; \<open>forEach_cleanup\<close> is
  shown below to fold this step over the entries.\<close>

definition visit :: "(string option \<times> cleanup_fn) \<Rightarrow> 'n world \<Rightarrow> 'n world" where
  "visit e w =
     (if map_of (cleanupFunctions w) (fst e) = Some (snd e)
      then (case call_cleanup (snd e) w of
              Done s \<Rightarrow> s
            | Threw x s \<Rightarrow> s\<lparr>console := console s @ [''Error during cleanup:'']\<rparr>)
      else w)"

text \<open>The cleanups that throw in a context with a \<open>window\<close>, and the store keys of
  the two namespaces.\<close>

fun throwing :: "cleanup_fn \<Rightarrow> bool" where
  "throwing (StoreCleanup uid) = False"
| "throwing (SignalCleanup i) = False"
| "throwing (ForeignCleanup i throws) = throws"

definition namespaced :: "string \<Rightarrow> bool" where
  "namespaced k \<longleftrightarrow> prefix ''syncstore-'' k \<or> prefix ''syncsignal-'' k"

text \<open>The cleanup registry as construction leaves it: one entry per key (it is a
  \<open>Map\<close>), and the cleanup of a unit registered under that unit's own key.\<close>

definition registry_ok :: "'n world \<Rightarrow> bool" where
  "registry_ok w \<longleftrightarrow>
     distinct (map fst (cleanupFunctions w))
     \<and> (\<forall>e \<in> set (cleanupFunctions w). \<forall>uid u.
           snd e = StoreCleanup uid \<and> units w uid = Some u \<longrightarrow> key u = fst e)
     \<and> (\<forall>e \<in> set (cleanupFunctions w). \<forall>i s.
           snd e = SignalCleanup i \<and> signals w i = Some s \<longrightarrow> sig_key s = fst e)"

text \<open>The context \<open>clearAllSyncData\<close> leaves (shown equal to it below).\<close>

definition clearAll_result :: "'n world \<Rightarrow> 'n world" where
  "clearAll_result w =
     (let w1 = fold visit (cleanupFunctions w) w;
          w2 = (if hasWindow w1 \<and> hasLocalStorage w1 then fold removeItem (keysToRemove w1) w1 else w1)
      in w2\<lparr>syncFunctions := [], cleanupFunctions := []\<rparr>)"

text \<open>A browser context with a theme setting and a scalar unit's entry in the durable
  store, a cleanup that throws put into the registry under \<open>message\<close> by other code,
  and the counter store created after it.\<close>

definition crowded_tab :: "int world" where
  "crowded_tab =
     state_of (createSyncStore (Some counter_options) 10 10
       (register_cleanup (Some ''message'') (ForeignCleanup 7 True)
         (browser\<lparr>localStorage :=
            [(''theme'', Json (JStr ''dark'')),
             (''syncsignal-message'', Json (envelope (JStr ''hi'') 3))]\<rparr>)))"

text \<open>What can happen in a context, one step at a time: a delivery to a unit, a call
  of a unit's \<open>sync\<close> (with the clock reading it takes) or \<open>cleanup\<close>, a call of
  \<open>createSyncStore\<close>, \<open>clearSyncData\<close> or \<open>clearAllSyncData\<close>, and another
  context writing or removing an entry of the shared durable store. What a step throws
  goes to its caller; the context it leaves is the one the next step finds.\<close>

datatype 'n operation =
    Deliver nat "'n incoming"
  | CallSync nat 'n
  | CallCleanup nat
  | Create "'n options option" 'n 'n
  | ClearSyncData string flavor
  | ClearAllSyncData
  | RemoteWrite string "'n payload"
  | RemoteRemove string

fun perform :: "('n::{zero,linorder}) operation \<Rightarrow> 'n world \<Rightarrow> 'n world" where
  "perform (Deliver uid inc) w = state_of (deliver uid inc w)"
| "perform (CallSync uid t) w = state_of (sync uid t w)"
| "perform (CallCleanup uid) w = state_of (cleanup uid w)"
| "perform (Create options now0 now1) w = state_of (createSyncStore options now0 now1 w)"
| "perform (ClearSyncData k ty) w = state_of (clearSyncData k ty w)"
| "perform ClearAllSyncData w = state_of (clearAllSyncData w)"
| "perform (RemoteWrite k raw) w = w\<lparr>localStorage := AList.update k raw (localStorage w)\<rparr>"
| "perform (RemoteRemove k) w = removeItem k w"

fun run :: "('n::{zero,linorder}) operation list \<Rightarrow> 'n world \<Rightarrow> 'n world" where
  "run [] w = w"
| "run (op # ops) w = run ops (perform op w)"

text \<open>The polling context after another context has written its envelope of
  \<open>{count: 1}\<close>, stamped 30, to the shared durable store.\<close>

definition polled_tab :: "int world" where
  "polled_tab =
     perform (RemoteWrite ''syncstore-counter'' (Json (envelope (JObj [(''count'', JNum 1)]) 30)))
       polling_tab"

text \<open>The watermark of a unit.\<close>

definition watermark :: "nat \<Rightarrow> 'n world \<Rightarrow> 'n option" where
  "watermark uid w = map_option lastUpdate (units w uid)"

text \<open>A step is in order for a unit unless it is that unit's \<open>sync\<close> reading a clock
  below the unit's watermark; a sequence is in order when each step is, in the context
  it is taken in.\<close>

fun sync_reads_ahead :: "nat \<Rightarrow> ('n::{zero,linorder}) operation \<Rightarrow> 'n world \<Rightarrow> bool" where
  "sync_reads_ahead uid (CallSync i t) w =
     (i \<noteq> uid \<or> (case watermark uid w of None \<Rightarrow> True | Some m \<Rightarrow> m \<le> t))"
| "sync_reads_ahead uid _ w = True"

fun clock_ahead :: "nat \<Rightarrow> ('n::{zero,linorder}) operation list \<Rightarrow> 'n world \<Rightarrow> bool" where
  "clock_ahead uid [] w = True"
| "clock_ahead uid (op # ops) w = (sync_reads_ahead uid op w \<and> clock_ahead uid ops (perform op w))"

text \<open>From one context to a later one, no unit id is given up and the unit's watermark
  has not gone down.\<close>

definition keeps_mark :: "nat \<Rightarrow> ('n::linorder) world \<Rightarrow> 'n world \<Rightarrow> bool" where
  "keeps_mark uid w w' \<longleftrightarrow>
     nextUnit w \<le> nextUnit w'
     \<and> (\<forall>u. units w uid = Some u \<longrightarrow> (\<exists>u'. units w' uid = Some u' \<and> lastUpdate u \<le> lastUpdate u'))"

text \<open>Every unit whose cleanup is registered has been allocated.\<close>

definition ids_allocated :: "'n world \<Rightarrow> bool" where
  "ids_allocated w \<longleftrightarrow>
     (\<forall>e \<in> set (cleanupFunctions w). \<forall>uid.
         snd e = StoreCleanup uid \<or> snd e = SignalCleanup uid \<longrightarrow> uid < nextUnit w)"


section \<open>Incoming payloads\<close>

subsection \<open>The setter of a store\<close>

lemmas js_defs =
  setStore_def mergeStoreNode_def setProperty_def defineProperty_def precedes_def
  array_index_def digit_value_def decimal_def show_nat.simps upt_rec

lemma setStore_nothing [simp]:
  "setStore state JNull = state" "setStore state JUndefined = state"
  "setStore state (JNum n) = state" "setStore state (JBool b) = state"
  by (cases state; simp add: setStore_def mergeStoreNode_def)+

subsection \<open>The listeners, step by step\<close>

lemma isValidSyncData_iff:
  "isValidSyncData d \<longleftrightarrow>
     (\<exists>kvs dat t. d = JObj kvs \<and> map_of kvs ''data'' = Some dat \<and> map_of kvs ''timestamp'' = Some (JNum t))"
proof (cases d)
  case (JObj kvs)
  show ?thesis
  proof (cases "map_of kvs ''timestamp''")
    case None
    with JObj show ?thesis by (simp add: isValidSyncData_def)
  next
    case (Some ts)
    with JObj show ?thesis
      by (cases ts) (auto simp add: isValidSyncData_def)
  qed
qed (simp_all add: isValidSyncData_def)

lemma decode_envelope_parse:
  "decode_envelope raw = (case JSON_parse raw of Inl e \<Rightarrow> None | Inr d \<Rightarrow> decode_envelope (Json d))"
  by (cases raw) (simp_all add: decode_envelope_def)

lemma receive_decode:
  "receive d u =
     (case decode_envelope (Json d) of
        Some (dat, t) \<Rightarrow>
          if lastUpdate u < t then u\<lparr>store := setStore (store u) dat, lastUpdate := t\<rparr> else u
      | None \<Rightarrow> u)"
  by (simp add: receive_def decode_envelope_def split: jsvalue.splits)

lemma parse_and_receive_eq:
  "units w uid = Some u \<Longrightarrow>
   parse_and_receive uid raw w =
     (case JSON_parse raw of
        Inl e \<Rightarrow> Threw e w
      | Inr d \<Rightarrow> Done (w\<lparr>units := (units w)(uid \<mapsto> receive d u)\<rparr>))"
  by (cases raw) (simp_all add: parse_and_receive_def upd_unit_def)

lemma onmessage_eq:
  "units w uid = Some u \<Longrightarrow>
   onmessage uid raw w =
     (case JSON_parse raw of
        Inl e \<Rightarrow> Done (w\<lparr>console := console w @ [''Failed to parse sync message:'']\<rparr>)
      | Inr d \<Rightarrow> Done (w\<lparr>units := (units w)(uid \<mapsto> receive d u)\<rparr>))"
  by (cases raw) (simp_all add: onmessage_def try_catch_def parse_and_receive_eq console_error_def)

lemma storageListener_fn_eq:
  "units w uid = Some u \<Longrightarrow>
   storageListener_fn uid k v w =
     (case payload_of u w (StorageEvent k v) of
        None \<Rightarrow> Done w
      | Some raw \<Rightarrow>
          (case JSON_parse raw of
             Inl e \<Rightarrow> Done (w\<lparr>console := console w @ [''Failed to parse localStorage data:'']\<rparr>)
           | Inr d \<Rightarrow> Done (w\<lparr>units := (units w)(uid \<mapsto> receive d u)\<rparr>)))"
  by (cases v)
     (simp_all add: storageListener_fn_def try_catch_def parse_and_receive_eq console_error_def
        split: sum.splits)

lemma poll_tick_eq:
  "units w uid = Some u \<Longrightarrow>
   poll_tick uid w =
     (case payload_of u w PollTick of
        None \<Rightarrow> Done w
      | Some raw \<Rightarrow>
          (case JSON_parse raw of
             Inl e \<Rightarrow> Done (w\<lparr>console := console w @ [''Failed to poll data:'']\<rparr>)
           | Inr d \<Rightarrow>
               Done (w\<lparr>units := (units w)(uid \<mapsto> (receive d u)\<lparr>lastData := Some raw\<rparr>)\<rparr>)))"
  by (simp add: poll_tick_def poll_body_def try_catch_def and_then_def parse_and_receive_eq
        console_error_def upd_unit_def Let_def split: sum.splits option.splits)

lemma receive_key [simp]: "key (receive d u) = key u"
  by (simp add: receive_def split: jsvalue.splits)

lemma receive_cell:
  "(store (receive d u), lastUpdate (receive d u)) =
     (case decode_envelope (Json d) of
        Some (dat, t) \<Rightarrow>
          if lastUpdate u < t then (setStore (store u) dat, t) else (store u, lastUpdate u)
      | None \<Rightarrow> (store u, lastUpdate u))"
  by (simp add: receive_decode split: option.splits)

lemma decode_Malformed [simp]: "decode_envelope (Malformed s) = None"
  by (simp add: decode_envelope_def)

text \<open>What a listener does to its unit when the host calls it.\<close>

lemma listener_eq:
  assumes "units w uid = Some u"
  shows "listener uid inc w =
           (case payload_of u w inc of
              None \<Rightarrow> Done w
            | Some raw \<Rightarrow>
                (case JSON_parse raw of
                   Inl e \<Rightarrow>
                     Done (w\<lparr>console := console w @
                        [case inc of
                           ChannelMessage m \<Rightarrow> ''Failed to parse sync message:''
                         | StorageEvent k v \<Rightarrow> ''Failed to parse localStorage data:''
                         | PollTick \<Rightarrow> ''Failed to poll data:'']\<rparr>)
                 | Inr d \<Rightarrow>
                     Done (w\<lparr>units := (units w)
                        (uid \<mapsto> (case inc of
                                    PollTick \<Rightarrow> (receive d u)\<lparr>lastData := Some raw\<rparr>
                                  | _ \<Rightarrow> receive d u))\<rparr>)))"
  using assms
  by (cases inc)
     (simp_all add: onmessage_eq storageListener_fn_eq poll_tick_eq split: sum.splits option.splits)

lemma listener_unit:
  assumes "units w uid = Some u"
  shows "\<exists>w' u'. listener uid inc w = Done w' \<and> units w' uid = Some u' \<and> key u' = key u \<and>
           (store u', lastUpdate u') =
             (case payload_of u w inc of
                None \<Rightarrow> (store u, lastUpdate u)
              | Some raw \<Rightarrow>
                  (case decode_envelope raw of
                     Some (dat, t) \<Rightarrow>
                       if lastUpdate u < t then (setStore (store u) dat, t) else (store u, lastUpdate u)
                   | None \<Rightarrow> (store u, lastUpdate u)))"
proof (cases "payload_of u w inc")
  case None
  with assms show ?thesis by (simp add: listener_eq)
next
  case (Some raw)
  show ?thesis
  proof (cases "JSON_parse raw")
    case (Inl e)
    with Some assms show ?thesis by (simp add: listener_eq decode_envelope_parse)
  next
    case (Inr d)
    define u' where
      "u' = (case inc of PollTick \<Rightarrow> (receive d u)\<lparr>lastData := Some raw\<rparr> | _ \<Rightarrow> receive d u)"
    have l: "listener uid inc w = Done (w\<lparr>units := (units w)(uid \<mapsto> u')\<rparr>)"
      using listener_eq [OF assms, of inc] Some Inr by (simp add: u'_def)
    have f: "key u' = key u" "store u' = store (receive d u)" "lastUpdate u' = lastUpdate (receive d u)"
      by (cases inc; simp add: u'_def)+
    have "decode_envelope raw = decode_envelope (Json d)"
      using Inr by (simp add: decode_envelope_parse [of raw])
    then show ?thesis
      using receive_cell [of d u] Some l f by simp
  qed
qed

text \<open>What any delivery does to the unit it is delivered to.\<close>

lemma deliver_unit:
  assumes "units w uid = Some u"
  shows "\<exists>w' u'. deliver uid inc w = Done w' \<and> units w' uid = Some u' \<and> key u' = key u \<and>
           (store u', lastUpdate u') =
             (case (if attached u uid w inc then payload_of u w inc else None) of
                None \<Rightarrow> (store u, lastUpdate u)
              | Some raw \<Rightarrow>
                  (case decode_envelope raw of
                     Some (dat, t) \<Rightarrow>
                       if lastUpdate u < t then (setStore (store u) dat, t) else (store u, lastUpdate u)
                   | None \<Rightarrow> (store u, lastUpdate u)))"
proof (cases "attached u uid w inc")
  case True
  with assms listener_unit [OF assms, of inc] show ?thesis by (simp add: deliver_def)
next
  case False
  with assms show ?thesis by (simp add: deliver_def)
qed

lemma deliver_cell:
  assumes "units w uid = Some u"
  shows "cell uid (state_of (deliver uid inc w)) =
           (case (if attached u uid w inc then payload_of u w inc else None) of
              None \<Rightarrow> Some (store u, lastUpdate u)
            | Some raw \<Rightarrow>
                (case decode_envelope raw of
                   Some (dat, t) \<Rightarrow>
                     if lastUpdate u < t then Some (setStore (store u) dat, t)
                     else Some (store u, lastUpdate u)
                 | None \<Rightarrow> Some (store u, lastUpdate u)))"
proof -
  from deliver_unit [OF assms, of inc] obtain w' u' where
    d: "deliver uid inc w = Done w'" and u': "units w' uid = Some u'" and
    c: "(store u', lastUpdate u') =
             (case (if attached u uid w inc then payload_of u w inc else None) of
                None \<Rightarrow> (store u, lastUpdate u)
              | Some raw \<Rightarrow>
                  (case decode_envelope raw of
                     Some (dat, t) \<Rightarrow>
                       if lastUpdate u < t then (setStore (store u) dat, t) else (store u, lastUpdate u)
                   | None \<Rightarrow> (store u, lastUpdate u)))"
    by blast
  have "cell uid (state_of (deliver uid inc w)) = Some (store u', lastUpdate u')"
    using d u' by (simp add: cell_def)
  also have "\<dots> = (case (if attached u uid w inc then payload_of u w inc else None) of
              None \<Rightarrow> Some (store u, lastUpdate u)
            | Some raw \<Rightarrow>
                (case decode_envelope raw of
                   Some (dat, t) \<Rightarrow>
                     if lastUpdate u < t then Some (setStore (store u) dat, t)
                     else Some (store u, lastUpdate u)
                 | None \<Rightarrow> Some (store u, lastUpdate u)))"
    unfolding c by (simp split: option.splits)
  finally show ?thesis .
qed

text \<open>A payload handed to a unit, decoded.\<close>

lemma handed_cell:
  assumes live: "units w uid = Some u" and h: "handed u uid w inc raw"
  shows "cell uid (state_of (deliver uid inc w)) =
           (case decode_envelope raw of
              Some (dat, t) \<Rightarrow>
                if lastUpdate u < t then Some (setStore (store u) dat, t)
                else Some (store u, lastUpdate u)
            | None \<Rightarrow> Some (store u, lastUpdate u))"
  using deliver_cell [OF live, of inc] h by (simp add: handed_def)

text \<open>Two deliveries one after the other; other steps may lie between them as long as
  they leave the closure of the unit as the first delivery left it.\<close>

lemma two_deliveries:
  fixes w :: "('n::{zero,linorder}) world"
  assumes live: "units w uid = Some u"
    and a: "handed u uid w incA rawA" and da: "decode_envelope rawA = Some (datA, tA)"
    and mid: "units (state_of (deliver uid incA w)) uid = Some uA"
    and later: "units wB uid = Some uA"
    and b: "handed uA uid wB incB rawB" and db: "decode_envelope rawB = Some (datB, tB)"
  shows "cell uid (state_of (deliver uid incB wB)) =
           Some (if lastUpdate u < tA
                 then (if tA < tB then (setStore (setStore (store u) datA) datB, tB)
                       else (setStore (store u) datA, tA))
                 else if lastUpdate u < tB then (setStore (store u) datB, tB)
                 else (store u, lastUpdate u))"
proof -
  have "cell uid (state_of (deliver uid incA w)) =
          (if lastUpdate u < tA then Some (setStore (store u) datA, tA) else Some (store u, lastUpdate u))"
    using handed_cell [OF live a] da by simp
  with mid have c1: "(store uA, lastUpdate uA) =
          (if lastUpdate u < tA then (setStore (store u) datA, tA) else (store u, lastUpdate u))"
    by (simp add: cell_def split: if_splits)
  have "cell uid (state_of (deliver uid incB wB)) =
          (if lastUpdate uA < tB then Some (setStore (store uA) datB, tB)
           else Some (store uA, lastUpdate uA))"
    using handed_cell [OF later b] db by simp
  with c1 show ?thesis by (auto split: if_splits)
qed


lemmas create_defs =
  createSyncStore_def register_sync_def register_cleanup_def init_transport_def upd_unit_def
  loadExistingData_def getItem_def storeKey_def sync_def and_then_def try_catch_def save_step_def
  broadcast_step_def setItem_def postMessage_def JSON_stringify_def envelope_def Let_def

lemma counter_tab_unit: "units counter_tab 0 = Some counter_unit"
  by (simp add: counter_tab_def counter_unit_def counter_options_def browser_def create_defs)

lemma decode_envelope_stringify [simp]:
  "decode_envelope (Json (envelope d t)) = Some (d, t)"
  by (simp add: decode_envelope_def envelope_def isValidSyncData_def)

lemma counter_tab_eq:
  "counter_tab =
     browser\<lparr>units := (\<lambda>i. None)(0 \<mapsto> counter_unit), nextUnit := 1,
             syncFunctions := [(Some ''counter'', StoreSync 0)],
             cleanupFunctions := [(Some ''counter'', StoreCleanup 0)],
             localStorage := [(''syncstore-counter'', Json (envelope (JObj [(''count'', JNum 0)]) 10))],
             posted := [(''syncstore-counter'', Json (envelope (JObj [(''count'', JNum 0)]) 10))],
             syncCalls := 1\<rparr>"
  by (simp add: counter_tab_def counter_unit_def counter_options_def browser_def create_defs)

lemma polling_tab_eq:
  "polling_tab =
     browser\<lparr>units := (\<lambda>i. None)(0 \<mapsto> polling_unit), nextUnit := 1, nextTimer := 2,
             syncFunctions := [(Some ''counter'', StoreSync 0)],
             cleanupFunctions := [(Some ''counter'', StoreCleanup 0)],
             localStorage := [(''syncstore-counter'', Json (envelope (JObj [(''count'', JNum 0)]) 10))],
             storageListeners := [0], intervals := [(1, 0)],
             syncCalls := 1\<rparr>"
  by (simp add: polling_tab_def polling_unit_def polling_options_def counter_options_def browser_def
        create_defs)

text \<open>A delivery that hands a payload that parses.\<close>

lemma deliver_handed:
  assumes "units w uid = Some u" and "handed u uid w inc raw" and "JSON_parse raw = Inr d"
  shows "deliver uid inc w =
           Done (w\<lparr>units := (units w)
                  (uid \<mapsto> (case inc of
                              PollTick \<Rightarrow> (receive d u)\<lparr>lastData := Some raw\<rparr>
                            | _ \<Rightarrow> receive d u))\<rparr>)"
  using assms by (simp add: deliver_def handed_def listener_eq)

lemma receive_envelope:
  "receive (envelope dat t) u =
     (if lastUpdate u < t then u\<lparr>store := setStore (store u) dat, lastUpdate := t\<rparr> else u)"
  by (simp add: receive_decode)

subsection \<open>What \<open>setStore\<close> makes of an envelope's data\<close>

text \<open>
  The listeners hand the envelope's data to \<open>setStore\<close>, which merges it into the
  store. Data with the store's own keys replaces their values; data with other keys
  leaves the store's keys in place; a string is merged by its characters; \<open>null\<close> or
  a number changes nothing, and the watermark is moved all the same.
\<close>

lemma setStore_examples:
  "setStore (JObj [(''count'', JNum (0::int))]) (JObj [(''count'', JNum 1)]) = JObj [(''count'', JNum 1)]"
  "setStore (JObj [(''count'', JNum (0::int))]) (JObj [(''other'', JNum 1)])
     = JObj [(''count'', JNum 0), (''other'', JNum 1)]"
  "setStore (JObj [(''count'', JNum (0::int))]) (JStr ''a'') = JObj [(''0'', JStr ''a''), (''count'', JNum 0)]"
  "setStore (JObj [(''count'', JNum (0::int))]) (JArr [JNum 1, JNum 2])
     = JObj [(''0'', JNum 1), (''1'', JNum 2), (''count'', JNum 0)]"
  "setStore (JObj [(''count'', JNum (0::int))]) JNull = JObj [(''count'', JNum 0)]"
  by (simp_all add: js_defs)

lemma incoming_data_is_merged:
  "cell 0 (state_of (deliver 0 (ChannelMessage (Json (envelope (JObj [(''other'', JNum 1)]) 30))) counter_tab))
     = Some (JObj [(''count'', JNum 0), (''other'', JNum 1)], 30)"
  "cell 0 (state_of (deliver 0 (ChannelMessage (Json (envelope (JStr ''a'') 30))) counter_tab))
     = Some (JObj [(''0'', JStr ''a''), (''count'', JNum 0)], 30)"
  "cell 0 (state_of (deliver 0 (ChannelMessage (Json (envelope JNull 30))) counter_tab))
     = Some (JObj [(''count'', JNum 0)], 30)"
  using deliver_cell [OF counter_tab_unit]
  by (simp_all add: counter_unit_def setStore_examples)

subsection \<open>Strictly newer envelopes are accepted, all others discarded\<close>

lemma counter_handed:
  "handed counter_unit 0 counter_tab (ChannelMessage raw) raw"
  "handed (counter_unit\<lparr>store := s, lastUpdate := t\<rparr>) 0 w' (ChannelMessage raw) raw"
  by (simp_all add: handed_def counter_unit_def)

text \<open>
  Claim C1, as the code has it. A payload reaches a live structured unit through the
  listener that is attached: a message on its open channel, a \<open>storage\<close> event for
  its own store key, or a tick of its polling timer that finds a stored text other than
  the one it saw last. The unit accepts the payload, that is, hands its data to
  \<open>setStore\<close> and sets the watermark to its timestamp, exactly when the payload decodes
  to a valid envelope whose timestamp is strictly greater than the watermark; in every
  other case (a timestamp equal to or below the watermark included) value and watermark
  stay as they were. Of two valid envelopes delivered one after the other, the second is
  accepted exactly when its timestamp is above the first one's, if the first was
  accepted, and above the watermark otherwise. So in either order the envelope with the
  strictly greater timestamp is the last one accepted and leaves its timestamp as the
  watermark when that timestamp is above the watermark the unit started with; when
  neither timestamp is, both envelopes are discarded; and of two envelopes with equal
  timestamps only the one delivered first can be accepted.
\<close>

theorem incoming_applied_iff_strictly_newer:
  fixes w :: "('n::{zero,linorder}) world"
  assumes live: "units w uid = Some u"
  shows
   "(handed u uid w inc raw \<longrightarrow>
       cell uid (state_of (deliver uid inc w)) =
         (case decode_envelope raw of
            Some (dat, t) \<Rightarrow>
              if lastUpdate u < t then Some (setStore (store u) dat, t)
              else Some (store u, lastUpdate u)
          | None \<Rightarrow> Some (store u, lastUpdate u)))
    \<and> (handed u uid w inc raw \<longrightarrow>
         (watermark uid (state_of (deliver uid inc w)) \<noteq> Some (lastUpdate u)
            \<longleftrightarrow> (\<exists>dat t. decode_envelope raw = Some (dat, t) \<and> lastUpdate u < t)))
    \<and> (handed u uid w incA rawA \<and> decode_envelope rawA = Some (datA, tA)
        \<and> units (state_of (deliver uid incA w)) uid = Some uA
        \<and> units wB uid = Some uA
        \<and> handed uA uid wB incB rawB \<and> decode_envelope rawB = Some (datB, tB) \<longrightarrow>
          cell uid (state_of (deliver uid incB wB)) =
            Some (if lastUpdate u < tA
                  then (if tA < tB then (setStore (setStore (store u) datA) datB, tB)
                        else (setStore (store u) datA, tA))
                  else if lastUpdate u < tB then (setStore (store u) datB, tB)
                  else (store u, lastUpdate u)))"
proof (intro conjI impI)
  assume h: "handed u uid w inc raw"
  show "cell uid (state_of (deliver uid inc w)) =
         (case decode_envelope raw of
            Some (dat, t) \<Rightarrow>
              if lastUpdate u < t then Some (setStore (store u) dat, t)
              else Some (store u, lastUpdate u)
          | None \<Rightarrow> Some (store u, lastUpdate u))"
    by (rule handed_cell [OF live h])
next
  assume h: "handed u uid w inc raw"
  have "watermark uid w' = map_option snd (cell uid w')" for w' :: "'n world"
    by (cases "units w' uid") (simp_all add: watermark_def cell_def)
  then show "watermark uid (state_of (deliver uid inc w)) \<noteq> Some (lastUpdate u)
            \<longleftrightarrow> (\<exists>dat t. decode_envelope raw = Some (dat, t) \<and> lastUpdate u < t)"
    using handed_cell [OF live h] by (auto split: option.splits)
next
  assume "handed u uid w incA rawA \<and> decode_envelope rawA = Some (datA, tA)
        \<and> units (state_of (deliver uid incA w)) uid = Some uA
        \<and> units wB uid = Some uA
        \<and> handed uA uid wB incB rawB \<and> decode_envelope rawB = Some (datB, tB)"
  then show "cell uid (state_of (deliver uid incB wB)) =
            Some (if lastUpdate u < tA
                  then (if tA < tB then (setStore (setStore (store u) datA) datB, tB)
                        else (setStore (store u) datA, tA))
                  else if lastUpdate u < tB then (setStore (store u) datB, tB)
                  else (store u, lastUpdate u))"
    using two_deliveries [OF live, of incA rawA datA tA uA wB incB rawB datB tB] by blast
qed

theorem incoming_applied_iff_strictly_newer_witness:
  "units counter_tab 0 = Some counter_unit
   \<and> handed counter_unit 0 counter_tab
         (ChannelMessage (Json (envelope (JObj [(''count'', JNum 1)]) 30)))
         (Json (envelope (JObj [(''count'', JNum 1)]) 30))
   \<and> cell 0 (state_of (deliver 0 (ChannelMessage (Json (envelope (JObj [(''count'', JNum 1)]) 30))) counter_tab))
       = Some (JObj [(''count'', JNum 1)], 30)
   \<and> watermark 0 (state_of (deliver 0 (ChannelMessage (Json (envelope (JObj [(''count'', JNum 1)]) 30))) counter_tab))
       \<noteq> Some 10
   \<and> cell 0 (state_of (deliver 0 (ChannelMessage (Json (envelope (JObj [(''count'', JNum 2)]) 20)))
                (state_of (deliver 0 (ChannelMessage (Json (envelope (JObj [(''count'', JNum 1)]) 30))) counter_tab))))
       = Some (JObj [(''count'', JNum 1)], 30)
   \<and> cell 0 (state_of (deliver 0 (ChannelMessage (Json (envelope (JObj [(''count'', JNum 1)]) 30)))
                (state_of (deliver 0 (ChannelMessage (Json (envelope (JObj [(''count'', JNum 2)]) 20))) counter_tab))))
       = Some (JObj [(''count'', JNum 1)], 30)
   \<and> units polled_tab 0 = Some polling_unit
   \<and> handed polling_unit 0 polled_tab PollTick (Json (envelope (JObj [(''count'', JNum 1)]) 30))
   \<and> cell 0 (state_of (deliver 0 PollTick polled_tab)) = Some (JObj [(''count'', JNum 1)], 30)
   \<and> handed polling_unit 0 polled_tab
         (StorageEvent (Some ''syncstore-counter'') (Some (Json (envelope (JObj [(''count'', JNum 1)]) 30))))
         (Json (envelope (JObj [(''count'', JNum 1)]) 30))
   \<and> cell 0 (state_of (deliver 0
          (StorageEvent (Some ''syncstore-counter'') (Some (Json (envelope (JObj [(''count'', JNum 1)]) 30))))
          polled_tab))
       = Some (JObj [(''count'', JNum 1)], 30)"
proof -
  let ?A = "Json (envelope (JObj [(''count'', JNum 1)]) (30::int))"
  let ?B = "Json (envelope (JObj [(''count'', JNum 2)]) (20::int))"
  let ?uA = "counter_unit\<lparr>store := JObj [(''count'', JNum 1)], lastUpdate := 30\<rparr>"
  let ?uB = "counter_unit\<lparr>store := JObj [(''count'', JNum 2)], lastUpdate := 20\<rparr>"
  let ?wA = "state_of (deliver 0 (ChannelMessage ?A) counter_tab)"
  let ?wB = "state_of (deliver 0 (ChannelMessage ?B) counter_tab)"
  let ?ev = "StorageEvent (Some ''syncstore-counter'') (Some ?A)"
  have live: "units counter_tab 0 = Some counter_unit" by (rule counter_tab_unit)
  have f: "store counter_unit = JObj [(''count'', JNum 0)]" "lastUpdate counter_unit = 10"
    by (simp_all add: counter_unit_def)
  have hA: "handed counter_unit 0 counter_tab (ChannelMessage ?A) ?A"
    and hB: "handed counter_unit 0 counter_tab (ChannelMessage ?B) ?B"
    by (rule counter_handed)+
  have s: "setStore (JObj [(''count'', JNum (0::int))]) (JObj [(''count'', JNum 1)]) = JObj [(''count'', JNum 1)]"
          "setStore (JObj [(''count'', JNum (0::int))]) (JObj [(''count'', JNum 2)]) = JObj [(''count'', JNum 2)]"
          "setStore (JObj [(''count'', JNum (2::int))]) (JObj [(''count'', JNum 1)]) = JObj [(''count'', JNum 1)]"
    by (simp_all add: js_defs)
  have uA: "units ?wA 0 = Some ?uA"
    using deliver_handed [OF live hA, of "envelope (JObj [(''count'', JNum 1)]) 30"]
    by (simp add: receive_envelope f s)
  have uB: "units ?wB 0 = Some ?uB"
    using deliver_handed [OF live hB, of "envelope (JObj [(''count'', JNum 2)]) 20"]
    by (simp add: receive_envelope f s)
  have hAB: "handed ?uA 0 ?wA (ChannelMessage ?B) ?B"
    and hBA: "handed ?uB 0 ?wB (ChannelMessage ?A) ?A"
    by (rule counter_handed)+
  have ab: "cell 0 (state_of (deliver 0 (ChannelMessage ?A) counter_tab)) = Some (JObj [(''count'', JNum 1)], 30)
      \<and> watermark 0 (state_of (deliver 0 (ChannelMessage ?A) counter_tab)) \<noteq> Some 10
      \<and> cell 0 (state_of (deliver 0 (ChannelMessage ?B) ?wA)) = Some (JObj [(''count'', JNum 1)], 30)"
    using hA uA hAB
      incoming_applied_iff_strictly_newer [OF live,
        where inc = "ChannelMessage ?A" and raw = ?A and incA = "ChannelMessage ?A" and rawA = ?A
          and datA = "JObj [(''count'', JNum 1)]" and tA = 30 and uA = ?uA and wB = ?wA
          and incB = "ChannelMessage ?B" and rawB = ?B and datB = "JObj [(''count'', JNum 2)]" and tB = 20]
    by (simp add: f s)
  have ba: "cell 0 (state_of (deliver 0 (ChannelMessage ?A) ?wB)) = Some (JObj [(''count'', JNum 1)], 30)"
    using hB uB hBA
      incoming_applied_iff_strictly_newer [OF live,
        where inc = "ChannelMessage ?B" and raw = ?B and incA = "ChannelMessage ?B" and rawA = ?B
          and datA = "JObj [(''count'', JNum 2)]" and tA = 20 and uA = ?uB and wB = ?wB
          and incB = "ChannelMessage ?A" and rawB = ?A and datB = "JObj [(''count'', JNum 1)]" and tB = 30]
    by (simp add: f s)
  have plive: "units polled_tab 0 = Some polling_unit"
    by (simp add: polled_tab_def polling_tab_eq)
  have g: "store polling_unit = JObj [(''count'', JNum 0)]" "lastUpdate polling_unit = 10"
    by (simp_all add: polling_unit_def)
  have hP: "handed polling_unit 0 polled_tab PollTick ?A"
    by (simp add: handed_def polled_tab_def polling_tab_eq polling_unit_def browser_def getItem_def
          storeKey_def)
  have hE: "handed polling_unit 0 polled_tab ?ev ?A"
    by (simp add: handed_def polled_tab_def polling_tab_eq polling_unit_def browser_def storeKey_def)
  have p: "cell 0 (state_of (deliver 0 PollTick polled_tab)) = Some (JObj [(''count'', JNum 1)], 30)"
    using hP incoming_applied_iff_strictly_newer [OF plive, where inc = PollTick and raw = ?A]
    by (simp add: g s)
  have e: "cell 0 (state_of (deliver 0 ?ev polled_tab)) = Some (JObj [(''count'', JNum 1)], 30)"
    using hE incoming_applied_iff_strictly_newer [OF plive, where inc = ?ev and raw = ?A]
    by (simp add: g s)
  show ?thesis using live hA ab ba plive hP p hE e by simp
qed

text \<open>As stated, the claim has any two envelopes leave the data of the one with the
  greater timestamp. The counter unit has watermark 10 and value \<open>{count: 0}\<close>; the
  envelopes of \<open>{count: 1}\<close> stamped 5 and of \<open>{count: 2}\<close> stamped 3 are both
  discarded, in either order, and the value is the data of neither.\<close>

theorem stale_envelopes_leave_the_value:
  "cell 0 counter_tab = Some (JObj [(''count'', JNum 0)], 10)
   \<and> handed counter_unit 0 counter_tab
         (ChannelMessage (Json (envelope (JObj [(''count'', JNum 1)]) 5)))
         (Json (envelope (JObj [(''count'', JNum 1)]) 5))
   \<and> handed counter_unit 0 counter_tab
         (ChannelMessage (Json (envelope (JObj [(''count'', JNum 2)]) 3)))
         (Json (envelope (JObj [(''count'', JNum 2)]) 3))
   \<and> cell 0 (state_of (deliver 0 (ChannelMessage (Json (envelope (JObj [(''count'', JNum 2)]) 3)))
                (state_of (deliver 0 (ChannelMessage (Json (envelope (JObj [(''count'', JNum 1)]) 5))) counter_tab))))
       = Some (JObj [(''count'', JNum 0)], 10)
   \<and> cell 0 (state_of (deliver 0 (ChannelMessage (Json (envelope (JObj [(''count'', JNum 1)]) 5)))
                (state_of (deliver 0 (ChannelMessage (Json (envelope (JObj [(''count'', JNum 2)]) 3))) counter_tab))))
       = Some (JObj [(''count'', JNum 0)], 10)
   \<and> JObj [(''count'', JNum 0)] \<noteq> (JObj [(''count'', JNum 1)] :: int jsvalue)"
proof -
  let ?A = "Json (envelope (JObj [(''count'', JNum 1)]) (5::int))"
  let ?B = "Json (envelope (JObj [(''count'', JNum 2)]) (3::int))"
  have live: "units counter_tab 0 = Some counter_unit" by (rule counter_tab_unit)
  have f: "store counter_unit = JObj [(''count'', JNum 0)]" "lastUpdate counter_unit = 10"
    by (simp_all add: counter_unit_def)
  have hA: "handed counter_unit 0 counter_tab (ChannelMessage ?A) ?A"
    and hB: "handed counter_unit 0 counter_tab (ChannelMessage ?B) ?B"
    by (rule counter_handed)+
  have wA: "state_of (deliver 0 (ChannelMessage ?A) counter_tab) = counter_tab"
    using deliver_handed [OF live hA, of "envelope (JObj [(''count'', JNum 1)]) 5"] live
    by (simp add: receive_envelope f map_upd_triv)
  have wB: "state_of (deliver 0 (ChannelMessage ?B) counter_tab) = counter_tab"
    using deliver_handed [OF live hB, of "envelope (JObj [(''count'', JNum 2)]) 3"] live
    by (simp add: receive_envelope f map_upd_triv)
  have c: "cell 0 counter_tab = Some (JObj [(''count'', JNum 0)], 10)"
    by (simp add: cell_def live f)
  show ?thesis using hA hB c by (simp add: wA wB)
qed


subsection \<open>Malformed payloads\<close>




section \<open>\<open>sync\<close>\<close>

lemma closed_error [simp]: "is_closed_error (JsError ''InvalidStateError'' ''Channel is closed'')"
  by (simp add: is_closed_error_def)

lemma sync_eq:
  assumes "units w uid = Some u"
  shows "sync uid t w = Done (sync_result u uid t w)"
  using assms
  by (cases "channel u"; cases "the (channel u)")
     (simp_all add: sync_def sync_result_def Let_def try_catch_def and_then_def save_step_def
        broadcast_step_def setItem_def postMessage_def console_error_def upd_unit_def)

lemma sync_result_fields:
  "hasWindow (sync_result u uid t w) = hasWindow w"
  "hasLocalStorage (sync_result u uid t w) = hasLocalStorage w"
  "hasBroadcastChannel (sync_result u uid t w) = hasBroadcastChannel w"
  "quotaExceeded (sync_result u uid t w) = quotaExceeded w"
  "syncFunctions (sync_result u uid t w) = syncFunctions w"
  "cleanupFunctions (sync_result u uid t w) = cleanupFunctions w"
  "nextUnit (sync_result u uid t w) = nextUnit w"
  "nextTimer (sync_result u uid t w) = nextTimer w"
  "storageListeners (sync_result u uid t w) = storageListeners w"
  "intervals (sync_result u uid t w) = intervals w"
  "invoked (sync_result u uid t w) = invoked w"
  "syncCalls (sync_result u uid t w) = Suc (syncCalls w)"
  "signals (sync_result u uid t w) = signals w"
  by (simp_all add: sync_result_def Let_def split: option.splits handle.splits)

lemma sync_result_unit:
  "\<exists>u'. units (sync_result u uid t w) uid = Some u' \<and> store u' = store u \<and> lastUpdate u' = t
        \<and> key u' = key u \<and> storageType u' = storageType u \<and> storageListener u' = storageListener u
        \<and> pollingInterval u' = pollingInterval u \<and> lastData u' = lastData u"
  by (simp add: sync_result_def Let_def split: option.splits handle.splits)

lemma sync_result_other:
  "i \<noteq> uid \<Longrightarrow> units (sync_result u uid t w) i = units w i"
  by (simp add: sync_result_def Let_def split: option.splits handle.splits)

subsection \<open>\<open>sync\<close> on a closed channel\<close>




section \<open>Construction\<close>

lemma createSyncStore_eq:
  "createSyncStore (Some opts) now0 now1 w =
     (let uid = nextUnit w; w3 = before_load opts now0 w;
          register = (\<lambda>w'. Done (register_cleanup (opt_key opts) (StoreCleanup uid) w'))
      in if opt_persistOnLoad opts \<noteq> Some False then
           (case loadExistingData uid w3 of
              (True, w4) \<Rightarrow> register w4
            | (False, w4) \<Rightarrow> and_then (sync uid now1) register w4)
         else register w3)"
  by (cases "opt_persistOnLoad opts")
     (simp_all add: createSyncStore_def before_load_def fresh_unit_def Let_def)

lemma before_load_fields:
  "hasWindow (before_load opts now0 w) = hasWindow w"
  "hasLocalStorage (before_load opts now0 w) = hasLocalStorage w"
  "hasBroadcastChannel (before_load opts now0 w) = hasBroadcastChannel w"
  "quotaExceeded (before_load opts now0 w) = quotaExceeded w"
  "localStorage (before_load opts now0 w) = localStorage w"
  "posted (before_load opts now0 w) = posted w"
  "console (before_load opts now0 w) = console w"
  "invoked (before_load opts now0 w) = invoked w"
  "syncCalls (before_load opts now0 w) = syncCalls w"
  "nextUnit (before_load opts now0 w) = Suc (nextUnit w)"
  "cleanupFunctions (before_load opts now0 w) = cleanupFunctions w"
  "syncFunctions (before_load opts now0 w) = AList.update (opt_key opts) (StoreSync (nextUnit w)) (syncFunctions w)"
  "signals (before_load opts now0 w) = signals w"
  by (simp_all add: before_load_def init_transport_def register_sync_def upd_unit_def fresh_unit_def
        Let_def split: option.splits)

lemma before_load_unit:
  "\<exists>u. units (before_load opts now0 w) (nextUnit w) = Some u
       \<and> key u = opt_key opts \<and> store u = JObj (opt_initialValue opts) \<and> lastUpdate u = now0
       \<and> (pollingInterval u \<noteq> None \<longrightarrow> hasWindow w)
       \<and> (storageListener u \<longrightarrow> hasWindow w)
       \<and> \<not> channelClosed u
       \<and> (channel u = None \<or> channel u = Some ChanOpen)"
  by (simp add: before_load_def init_transport_def register_sync_def upd_unit_def fresh_unit_def
        Let_def split: option.splits)

lemma before_load_other:
  "i \<noteq> nextUnit w \<Longrightarrow> units (before_load opts now0 w) i = units w i"
  by (simp add: before_load_def init_transport_def register_sync_def upd_unit_def fresh_unit_def
        Let_def split: option.splits)

lemma valid_timestamp:
  "isValidSyncData d \<Longrightarrow> \<exists>t. get_property d ''timestamp'' = JNum t"
  by (auto simp add: isValidSyncData_iff)

lemma decode_envelope_Json:
  "decode_envelope (Json d) =
     (if isValidSyncData d
      then (case get_property d ''timestamp'' of JNum t \<Rightarrow> Some (get_property d ''data'', t) | _ \<Rightarrow> None)
      else None)"
  by (simp add: decode_envelope_def)

lemma parsed_truthy: "JSON_parse raw = Inr d \<Longrightarrow> truthy_text (Some raw)"
  by (cases raw) simp_all

lemma loadExistingData_eq:
  assumes "units w uid = Some u"
  shows "loadExistingData uid w =
     (case stored_envelope w (storeKey (key u)) of
        Some (d, t) \<Rightarrow>
          (True, w\<lparr>units := (units w)(uid \<mapsto> u\<lparr>store := setStore (store u) d, lastUpdate := t\<rparr>)\<rparr>)
      | None \<Rightarrow>
          (False,
           if hasWindow w \<and> hasLocalStorage w
           then (case getItem w (storeKey (key u)) of
                   Some (Malformed s) \<Rightarrow>
                     if s \<noteq> [] then w\<lparr>console := console w @ [''Failed to load existing data:'']\<rparr> else w
                 | _ \<Rightarrow> w)
           else w))"
proof (cases "hasWindow w \<and> hasLocalStorage w")
  case False
  with assms show ?thesis by (auto simp add: loadExistingData_def stored_envelope_def)
next
  case True
  show ?thesis
  proof (cases "getItem w (storeKey (key u))")
    case None
    with True assms show ?thesis by (simp add: loadExistingData_def stored_envelope_def)
  next
    case (Some raw)
    show ?thesis
    proof (cases "JSON_parse raw")
      case (Inl e)
      then obtain s where m: "raw = Malformed s" by (cases raw) simp_all
      with Some True assms show ?thesis
        by (simp add: loadExistingData_def stored_envelope_def console_error_def)
    next
      case (Inr d)
      have tr: "truthy_text (Some raw)" using Inr by (rule parsed_truthy)
      have nm: "(case raw of Malformed s \<Rightarrow> x s | _ \<Rightarrow> y) = y" for x :: "string \<Rightarrow> 'a world" and y
        using Inr by (cases raw) simp_all
      have de: "decode_envelope raw = decode_envelope (Json d)"
        using Inr by (simp add: decode_envelope_parse [of raw])
      show ?thesis
      proof (cases "isValidSyncData d")
        case False
        with Inr tr nm de Some True assms show ?thesis
          by (simp add: loadExistingData_def stored_envelope_def decode_envelope_Json)
      next
        case valid: True
        then obtain t where t: "get_property d ''timestamp'' = JNum t"
          using valid_timestamp by blast
        with valid Inr tr nm de Some True assms show ?thesis
          by (simp add: loadExistingData_def stored_envelope_def decode_envelope_Json upd_unit_def)
      qed
    qed
  qed
qed

lemma stored_envelope_before_load [simp]:
  "stored_envelope (before_load opts now0 w) k = stored_envelope w k"
  by (simp add: stored_envelope_def getItem_def before_load_fields)

lemma register_cleanup_fields:
  "units (register_cleanup k f w) = units w"
  "localStorage (register_cleanup k f w) = localStorage w"
  "posted (register_cleanup k f w) = posted w"
  "syncCalls (register_cleanup k f w) = syncCalls w"
  "console (register_cleanup k f w) = console w"
  "nextUnit (register_cleanup k f w) = nextUnit w"
  "hasWindow (register_cleanup k f w) = hasWindow w"
  "syncFunctions (register_cleanup k f w) = syncFunctions w"
  "cleanupFunctions (register_cleanup k f w) = AList.update k f (cleanupFunctions w)"
  "signals (register_cleanup k f w) = signals w"
  by (simp_all add: register_cleanup_def)

lemma cell_register_cleanup [simp]: "cell uid (register_cleanup k f w) = cell uid w"
  by (simp add: cell_def register_cleanup_fields)

lemma getItem_register_cleanup [simp]: "getItem (register_cleanup k f w) = getItem w"
  by (simp add: getItem_def register_cleanup_fields fun_eq_iff)

text \<open>Case: persistOnLoad is false.\<close>

lemma create_no_persist:
  assumes "opt_persistOnLoad opts = Some False"
  shows "createSyncStore (Some opts) now0 now1 w =
           Done (register_cleanup (opt_key opts) (StoreCleanup (nextUnit w)) (before_load opts now0 w))"
  using assms by (simp add: createSyncStore_eq Let_def)

lemma create_loaded:
  assumes p: "opt_persistOnLoad opts \<noteq> Some False"
    and u3: "units (before_load opts now0 w) (nextUnit w) = Some u3"
    and k: "key u3 = opt_key opts"
    and s: "stored_envelope w (storeKey (opt_key opts)) = Some (d, t)"
  shows "createSyncStore (Some opts) now0 now1 w =
           Done (register_cleanup (opt_key opts) (StoreCleanup (nextUnit w))
                  ((before_load opts now0 w)
                     \<lparr>units := (units (before_load opts now0 w))
                        (nextUnit w \<mapsto> u3\<lparr>store := setStore (store u3) d, lastUpdate := t\<rparr>)\<rparr>))"
  using p s by (simp add: createSyncStore_eq Let_def loadExistingData_eq [OF u3] k)

lemma create_seeded:
  assumes p: "opt_persistOnLoad opts \<noteq> Some False"
    and u3: "units (before_load opts now0 w) (nextUnit w) = Some u3"
    and k: "key u3 = opt_key opts"
    and s: "stored_envelope w (storeKey (opt_key opts)) = None"
  shows "createSyncStore (Some opts) now0 now1 w =
           Done (register_cleanup (opt_key opts) (StoreCleanup (nextUnit w))
                  (sync_result u3 (nextUnit w) now1 (after_failed_load opts now0 w)))"
proof -
  have l: "loadExistingData (nextUnit w) (before_load opts now0 w) = (False, after_failed_load opts now0 w)"
    using s by (simp add: loadExistingData_eq [OF u3] k after_failed_load_def before_load_fields
        getItem_def Let_def)
  have u4: "units (after_failed_load opts now0 w) (nextUnit w) = Some u3"
    using u3 by (simp add: after_failed_load_def Let_def split: option.splits payload.splits)
  show ?thesis
    using p by (simp add: createSyncStore_eq Let_def l and_then_def sync_eq [OF u4])
qed

lemma after_failed_load_fields:
  "hasWindow (after_failed_load opts now0 w) = hasWindow w"
  "hasLocalStorage (after_failed_load opts now0 w) = hasLocalStorage w"
  "quotaExceeded (after_failed_load opts now0 w) = quotaExceeded w"
  "localStorage (after_failed_load opts now0 w) = localStorage w"
  "syncCalls (after_failed_load opts now0 w) = syncCalls w"
  "units (after_failed_load opts now0 w) = units (before_load opts now0 w)"
  "nextUnit (after_failed_load opts now0 w) = Suc (nextUnit w)"
  "signals (after_failed_load opts now0 w) = signals w"
  by (simp_all add: after_failed_load_def Let_def before_load_fields split: option.splits payload.splits)

lemma sync_result_cell:
  "cell uid (sync_result u uid t w) = Some (store u, t)"
  using sync_result_unit [of u uid t w] by (auto simp add: cell_def)

lemma sync_result_localStorage:
  "localStorage (sync_result u uid t w) =
     (if hasWindow w \<and> hasLocalStorage w \<and> \<not> quotaExceeded w
      then AList.update (storeKey (key u)) (JSON_stringify (envelope (store u) t)) (localStorage w)
      else localStorage w)"
  by (simp add: sync_result_def Let_def split: option.splits handle.splits)

lemma createSyncStore_cases:
  fixes w :: "('n::{zero,linorder}) world"
  shows "\<exists>w'. createSyncStore (Some opts) now0 now1 w = Done w' \<and>
     (if opt_persistOnLoad opts = Some False then
        cell (nextUnit w) w' = Some (JObj (opt_initialValue opts), now0)
        \<and> syncCalls w' = syncCalls w \<and> localStorage w' = localStorage w \<and> posted w' = posted w
      else
        (case stored_envelope w (storeKey (opt_key opts)) of
           Some (d, t) \<Rightarrow>
             cell (nextUnit w) w' = Some (setStore (JObj (opt_initialValue opts)) d, t)
             \<and> syncCalls w' = syncCalls w \<and> localStorage w' = localStorage w \<and> posted w' = posted w
         | None \<Rightarrow>
             cell (nextUnit w) w' = Some (JObj (opt_initialValue opts), now1)
             \<and> syncCalls w' = Suc (syncCalls w)
             \<and> (hasWindow w \<and> hasLocalStorage w \<and> \<not> quotaExceeded w \<longrightarrow>
                  getItem w' (storeKey (opt_key opts))
                    = Some (JSON_stringify (envelope (JObj (opt_initialValue opts)) now1)))))"
proof -
  from before_load_unit [of opts now0 w] obtain u3 where
    u3: "units (before_load opts now0 w) (nextUnit w) = Some u3" and k: "key u3 = opt_key opts"
    and st: "store u3 = JObj (opt_initialValue opts)" and lu: "lastUpdate u3 = now0"
    by blast
  show ?thesis
  proof (cases "opt_persistOnLoad opts = Some False")
    case True
    then show ?thesis
      using u3 st lu
      by (simp add: create_no_persist register_cleanup_fields before_load_fields cell_def)
  next
    case False
    show ?thesis
    proof (cases "stored_envelope w (storeKey (opt_key opts))")
      case None
      then show ?thesis
        using False st k
        by (simp add: create_seeded [OF False u3 k None] register_cleanup_fields sync_result_cell
              sync_result_fields after_failed_load_fields sync_result_localStorage getItem_def
              update_conv')
    next
      case (Some e)
      obtain d t where e: "e = (d, t)" by (cases e)
      with Some have s: "stored_envelope w (storeKey (opt_key opts)) = Some (d, t)" by simp
      show ?thesis
        using False s st
        by (simp add: create_loaded [OF False u3 k s] register_cleanup_fields before_load_fields
              cell_def)
    qed
  qed
qed

lemma createSyncStore_frame:
  fixes w :: "('n::{zero,linorder}) world"
  shows "\<exists>w'. createSyncStore (Some opts) now0 now1 w = Done w'
           \<and> nextUnit w' = Suc (nextUnit w)
           \<and> (\<forall>i. i \<noteq> nextUnit w \<longrightarrow> units w' i = units w i)
           \<and> signals w' = signals w"
proof -
  from before_load_unit [of opts now0 w] obtain u3 where
    u3: "units (before_load opts now0 w) (nextUnit w) = Some u3" and k: "key u3 = opt_key opts"
    by blast
  show ?thesis
  proof (cases "opt_persistOnLoad opts = Some False")
    case True
    then show ?thesis
      by (simp add: create_no_persist register_cleanup_fields before_load_fields before_load_other)
  next
    case False
    show ?thesis
    proof (cases "stored_envelope w (storeKey (opt_key opts))")
      case None
      show ?thesis
        by (simp add: create_seeded [OF False u3 k None] register_cleanup_fields
              sync_result_fields sync_result_other after_failed_load_fields before_load_other)
    next
      case (Some e)
      obtain d t where "e = (d, t)" by (cases e)
      with Some have s: "stored_envelope w (storeKey (opt_key opts)) = Some (d, t)" by simp
      show ?thesis
        by (simp add: create_loaded [OF False u3 k s] register_cleanup_fields before_load_fields
              before_load_other)
    qed
  qed
qed

subsection \<open>Loading or seeding at construction\<close>

text \<open>
  Claim C5, as the code has it. \<open>createSyncStore\<close> looks for a persisted envelope
  only when \<open>persistOnLoad\<close> is true (the default). Then, if a valid envelope is stored
  under the unit's key, its data is handed to \<open>setStore\<close> on the initial value and
  its timestamp becomes the watermark, whatever the watermark was; \<open>sync()\<close> is not
  called and nothing is written or posted. If none is found, \<open>sync()\<close> is called
  exactly once, the value stays the initial value, the watermark is the reading that
  \<open>sync()\<close> took, and a store that takes the write holds the envelope of the initial
  value at that reading. With \<open>persistOnLoad\<close> false no envelope is applied,
  \<open>sync()\<close> is not called and nothing is written or posted: the value is the initial
  value and the watermark the creation time, also when a valid envelope is stored.
\<close>

theorem construction_loads_or_seeds:
  fixes w :: "('n::{zero,linorder}) world"
  shows "\<exists>w'. createSyncStore (Some opts) now0 now1 w = Done w' \<and>
     (if opt_persistOnLoad opts = Some False then
        cell (nextUnit w) w' = Some (JObj (opt_initialValue opts), now0)
        \<and> syncCalls w' = syncCalls w \<and> localStorage w' = localStorage w \<and> posted w' = posted w
      else
        (case stored_envelope w (storeKey (opt_key opts)) of
           Some (d, t) \<Rightarrow>
             cell (nextUnit w) w' = Some (setStore (JObj (opt_initialValue opts)) d, t)
             \<and> syncCalls w' = syncCalls w \<and> localStorage w' = localStorage w \<and> posted w' = posted w
         | None \<Rightarrow>
             cell (nextUnit w) w' = Some (JObj (opt_initialValue opts), now1)
             \<and> syncCalls w' = Suc (syncCalls w)
             \<and> (hasWindow w \<and> hasLocalStorage w \<and> \<not> quotaExceeded w \<longrightarrow>
                  getItem w' (storeKey (opt_key opts))
                    = Some (JSON_stringify (envelope (JObj (opt_initialValue opts)) now1)))))"
  by (rule createSyncStore_cases)

lemma stored_counter:
  "stored_envelope stocked_browser ''syncstore-counter'' = Some (JObj [(''count'', JNum 7)], 5)"
  by (simp add: stored_envelope_def stocked_browser_def browser_def getItem_def)

lemma nothing_stored: "stored_envelope browser ''syncstore-counter'' = None"
  by (simp add: stored_envelope_def browser_def getItem_def)

theorem construction_loads_or_seeds_witness:
  "opt_persistOnLoad counter_options \<noteq> Some False
   \<and> stored_envelope browser (storeKey (opt_key counter_options)) = None
   \<and> hasWindow browser \<and> hasLocalStorage browser \<and> \<not> quotaExceeded browser
   \<and> (\<exists>w'. createSyncStore (Some counter_options) 10 10 browser = Done w'
        \<and> cell 0 w' = Some (JObj [(''count'', JNum 0)], 10)
        \<and> syncCalls w' = 1
        \<and> getItem w' ''syncstore-counter'' = Some (Json (envelope (JObj [(''count'', JNum 0)]) 10)))
   \<and> stored_envelope stocked_browser (storeKey (opt_key counter_options))
       = Some (JObj [(''count'', JNum 7)], 5)
   \<and> (\<exists>w'. createSyncStore (Some counter_options) 10 10 stocked_browser = Done w'
        \<and> cell 0 w' = Some (JObj [(''count'', JNum 7)], 5)
        \<and> syncCalls w' = 0
        \<and> localStorage w' = localStorage stocked_browser)
   \<and> (\<exists>w'. createSyncStore (Some (counter_options\<lparr>opt_persistOnLoad := Some False\<rparr>)) 10 10
                 stocked_browser = Done w'
        \<and> cell 0 w' = Some (JObj [(''count'', JNum 0)], 10)
        \<and> syncCalls w' = 0
        \<and> localStorage w' = localStorage stocked_browser)"
proof -
  have k: "storeKey (opt_key counter_options) = ''syncstore-counter''"
    by (simp add: storeKey_def counter_options_def)
  have p: "opt_persistOnLoad counter_options \<noteq> Some False"
    by (simp add: counter_options_def)
  have env: "hasWindow browser \<and> hasLocalStorage browser \<and> \<not> quotaExceeded browser"
    by (simp add: browser_def)
  have a: "\<exists>w'. createSyncStore (Some counter_options) 10 10 browser = Done w'
        \<and> cell 0 w' = Some (JObj [(''count'', JNum 0)], 10)
        \<and> syncCalls w' = 1
        \<and> getItem w' ''syncstore-counter'' = Some (Json (envelope (JObj [(''count'', JNum 0)]) 10))"
    using construction_loads_or_seeds [of counter_options 10 10 browser] p env nothing_stored
    by (simp add: k) (simp add: browser_def counter_options_def JSON_stringify_def envelope_def)
  have m: "setStore (JObj (opt_initialValue counter_options)) (JObj [(''count'', JNum 7)])
             = JObj [(''count'', JNum 7)]"
    by (simp add: counter_options_def js_defs)
  have b: "\<exists>w'. createSyncStore (Some counter_options) 10 10 stocked_browser = Done w'
        \<and> cell 0 w' = Some (JObj [(''count'', JNum 7)], 5)
        \<and> syncCalls w' = 0
        \<and> localStorage w' = localStorage stocked_browser"
    using construction_loads_or_seeds [of counter_options 10 10 stocked_browser] p stored_counter
    by (simp add: k m) (auto simp add: stocked_browser_def browser_def)
  have c: "\<exists>w'. createSyncStore (Some (counter_options\<lparr>opt_persistOnLoad := Some False\<rparr>)) 10 10
                 stocked_browser = Done w'
        \<and> cell 0 w' = Some (JObj [(''count'', JNum 0)], 10)
        \<and> syncCalls w' = 0
        \<and> localStorage w' = localStorage stocked_browser"
    using construction_loads_or_seeds
            [of "counter_options\<lparr>opt_persistOnLoad := Some False\<rparr>" 10 10 stocked_browser]
    by simp (auto simp add: stocked_browser_def browser_def counter_options_def)
  show ?thesis using p env a b c nothing_stored stored_counter by (simp add: k)
qed

text \<open>As stated, the claim has the stored envelope applied for any value of
  \<open>persistOnLoad\<close>. With \<open>persistOnLoad\<close> false and \<open>{count: 7}\<close> validly stored at
  reading 5, the unit created at reading 10 keeps \<open>{count: 0}\<close> and watermark 10.\<close>

theorem construction_ignores_store_without_persistOnLoad:
  "stored_envelope stocked_browser ''syncstore-counter'' = Some (JObj [(''count'', JNum 7)], 5)
   \<and> cell 0 (state_of (createSyncStore (Some (counter_options\<lparr>opt_persistOnLoad := Some False\<rparr>)) 10 10
                 stocked_browser))
       = Some (JObj [(''count'', JNum 0)], 10)
   \<and> cell 0 (state_of (createSyncStore (Some (counter_options\<lparr>opt_persistOnLoad := Some False\<rparr>)) 10 10
                 stocked_browser))
       \<noteq> Some (JObj [(''count'', JNum 7)], 5)"
proof -
  have "cell 0 (state_of (createSyncStore (Some (counter_options\<lparr>opt_persistOnLoad := Some False\<rparr>)) 10 10
                 stocked_browser))
       = Some (JObj [(''count'', JNum 0)], 10)"
    by (simp add: createSyncStore_def counter_options_def stocked_browser_def browser_def
      register_sync_def register_cleanup_def init_transport_def upd_unit_def cell_def Let_def)
  then show ?thesis by (simp add: stored_counter)
qed

subsection \<open>The configuration error\<close>

text \<open>
  Claim C3, as the code has it. \<open>createSyncStore\<close> throws its configuration error,
  \<open>SyncStore options are required\<close>, exactly when it is given no options object, and
  then before anything is changed. It does not look at the key: an options object
  without a key yields a unit, whose key is \<open>undefined\<close>. (The statement is about
  this error alone; \<open>createSyncStore\<close> has no other \<open>throw\<close> of its own.)
\<close>

theorem construction_throws_iff_no_options:
  fixes w :: "('n::{zero,linorder}) world"
  shows "((\<exists>w'. createSyncStore options now0 now1 w
                  = Threw (JsError ''Error'' ''SyncStore options are required'') w')
            \<longleftrightarrow> options = None)
         \<and> createSyncStore None now0 now1 w = Threw (JsError ''Error'' ''SyncStore options are required'') w
         \<and> (\<exists>w'. createSyncStore (Some (opts\<lparr>opt_key := None\<rparr>)) now0 now1 w = Done w'
                \<and> cell (nextUnit w) w' \<noteq> None)"
proof -
  have a: "(\<exists>w'. createSyncStore options now0 now1 w
                  = Threw (JsError ''Error'' ''SyncStore options are required'') w')
            \<longleftrightarrow> options = None"
  proof (cases options)
    case None
    then show ?thesis by (simp add: createSyncStore_def)
  next
    case (Some o')
    from createSyncStore_cases [of o' now0 now1 w] obtain w' where
      "createSyncStore (Some o') now0 now1 w = Done w'" by blast
    with Some show ?thesis by simp
  qed
  have b: "createSyncStore None now0 now1 w = Threw (JsError ''Error'' ''SyncStore options are required'') w"
    by (simp add: createSyncStore_def)
  from createSyncStore_cases [of "opts\<lparr>opt_key := None\<rparr>" now0 now1 w] obtain w' where
    "createSyncStore (Some (opts\<lparr>opt_key := None\<rparr>)) now0 now1 w = Done w'"
    "cell (nextUnit w) w' \<noteq> None"
    by (auto split: if_splits option.splits)
  then have c: "\<exists>w'. createSyncStore (Some (opts\<lparr>opt_key := None\<rparr>)) now0 now1 w = Done w'
                \<and> cell (nextUnit w) w' \<noteq> None"
    by blast
  from a b c show ?thesis by blast
qed

theorem construction_throws_iff_no_options_witness:
  "createSyncStore None 10 10 browser = Threw (JsError ''Error'' ''SyncStore options are required'') browser
   \<and> (\<nexists>w'. createSyncStore (Some counter_options) 10 10 browser
               = Threw (JsError ''Error'' ''SyncStore options are required'') w')
   \<and> (\<exists>w'. createSyncStore (Some (counter_options\<lparr>opt_key := None\<rparr>)) 10 10 browser = Done w'
          \<and> cell 0 w' \<noteq> None)"
proof -
  have n: "nextUnit browser = 0" by (simp add: browser_def)
  show ?thesis
    using construction_throws_iff_no_options [of "None" 10 10 browser counter_options]
      construction_throws_iff_no_options [of "Some counter_options" 10 10 browser counter_options]
    by (simp add: n)
qed

text \<open>As stated, the claim has a missing key raise the error. An options object with an
  initial value and no key is accepted: the unit is created and persisted under
  \<open>syncstore-undefined\<close>.\<close>

theorem construction_accepts_missing_key:
  "\<not> threw (createSyncStore (Some (counter_options\<lparr>opt_key := None\<rparr>)) 10 10 browser)
   \<and> cell 0 (state_of (createSyncStore (Some (counter_options\<lparr>opt_key := None\<rparr>)) 10 10 browser))
       = Some (JObj [(''count'', JNum 0)], 10)
   \<and> getItem (state_of (createSyncStore (Some (counter_options\<lparr>opt_key := None\<rparr>)) 10 10 browser))
        ''syncstore-undefined''
       = Some (Json (envelope (JObj [(''count'', JNum 0)]) 10))"
  by (simp add: counter_options_def browser_def cell_def create_defs)

section \<open>The codec\<close>

lemma json_plain_not_undefined: "json_plain v \<Longrightarrow> v \<noteq> JUndefined"
  by auto

lemma toJSON_plain: "json_plain v \<Longrightarrow> toJSON v = v"
proof (induction v rule: toJSON.induct)
  case (6 vs)
  then show ?case by (simp add: list_all_iff map_idI)
next
  case (7 kvs)
  have plain: "json_plain (snd kv)" if "kv \<in> set kvs" for kv
    using 7 that by (simp add: list_all_iff)
  have nu: "snd kv \<noteq> JUndefined" if "kv \<in> set kvs" for kv
    using plain [OF that] json_plain_not_undefined by blast
  have f: "filter (\<lambda>kv. snd kv \<noteq> JUndefined) kvs = kvs"
    using nu by (simp add: filter_id_conv)
  have "(fst kv, toJSON (snd kv)) = kv" if "kv \<in> set kvs" for kv
    using "7.IH" [of kv] that plain [OF that] nu [OF that] by simp
  then have "map (\<lambda>kv. (fst kv, toJSON (snd kv))) kvs = kvs"
    by (rule map_idI)
  with f show ?case by simp
qed simp_all

lemma decode_stringify_envelope:
  fixes v :: "('n::{zero,linorder}) jsvalue"
  assumes "v \<noteq> JUndefined"
  shows "decode_envelope (JSON_stringify (envelope v t)) = Some (toJSON v, t)"
  using assms
  by (simp add: JSON_stringify_def envelope_def decode_envelope_def isValidSyncData_def)

subsection \<open>The replacer never gets a Date\<close>

lemma collect_Inr: "collect (map Inr xs) = Inr xs"
  by (induction xs) simp_all

lemma toJSON_defined [simp]: "toJSON x \<noteq> JUndefined"
  by (cases x rule: toJSON.cases) simp_all

lemma serialize_undefined [simp]: "serialize JUndefined = Inr JUndefined"
  by (subst serialize.simps) (simp add: replacer_def)

text \<open>With the replacer of \<open>serializeData\<close>, \<open>JSON.stringify\<close> writes what it writes
  without a replacer: every Date has become a string, or \<open>null\<close>, before the replacer
  is asked.\<close>

lemma serialize_plain:
  "serialize v = Inr (if v = JUndefined then JUndefined else toJSON v)"
proof (induction v rule: toJSON.induct)
  case (6 vs)
  have "map serialize vs = map Inr (map (\<lambda>x. if x = JUndefined then JUndefined else toJSON x) vs)"
    using 6 by simp
  then have c: "collect (map serialize vs)
                  = Inr (map (\<lambda>x. if x = JUndefined then JUndefined else toJSON x) vs)"
    by (simp only: collect_Inr)
  have m: "map (\<lambda>x. if x = JUndefined then JNull else x)
             (map (\<lambda>x. if x = JUndefined then JUndefined else toJSON x) vs) = map toJSON vs"
    by (induction vs) simp_all
  show ?case
    by (subst serialize.simps) (simp add: replacer_def c m)
next
  case (7 kvs)
  have "map (\<lambda>kv. case serialize (snd kv) of Inl e \<Rightarrow> Inl e | Inr x \<Rightarrow> Inr (fst kv, x)) kvs
          = map Inr (map (\<lambda>kv. (fst kv, if snd kv = JUndefined then JUndefined else toJSON (snd kv))) kvs)"
    using 7 by (auto intro!: map_cong [OF refl] simp add: comp_def)
  then have c: "collect (map (\<lambda>kv. case serialize (snd kv) of Inl e \<Rightarrow> Inl e | Inr x \<Rightarrow> Inr (fst kv, x)) kvs)
          = Inr (map (\<lambda>kv. (fst kv, if snd kv = JUndefined then JUndefined else toJSON (snd kv))) kvs)"
    by (simp only: collect_Inr)
  have f: "filter (\<lambda>kv. snd kv \<noteq> JUndefined)
             (map (\<lambda>kv. (fst kv, if snd kv = JUndefined then JUndefined else toJSON (snd kv))) kvs)
           = map (\<lambda>kv. (fst kv, toJSON (snd kv))) (filter (\<lambda>kv. snd kv \<noteq> JUndefined) kvs)"
    by (induction kvs) simp_all
  show ?case
    by (subst serialize.simps) (simp add: replacer_def c f)
qed (subst serialize.simps, simp add: replacer_def)+

lemma serializeData_plain:
  "v \<noteq> JUndefined \<Longrightarrow> serializeData v = Inr (JSON_stringify v)"
  by (simp add: serializeData_def serialize_plain JSON_stringify_def)

text \<open>A tagged object is revived to whatever Date the host makes of its \<open>value\<close>, an
  invalid Date included; no text is decoded to the string \<open>Invalid Date: ...\<close> by the
  reviver's own doing.\<close>

lemma revive_tagged:
  "revive newDate (JObj [(''__type'', JStr ''Date''), (''value'', x)])
     = JDate (newDate (reviver newDate x))" if "\<not> (\<exists>vs. x = JArr vs) \<and> \<not> (\<exists>kvs. x = JObj kvs)"
  using that by (cases x) (simp_all add: reviver_def)

subsection \<open>Dates do not survive the codec\<close>

text \<open>
  Claim C4, on the code. Neither flavor writes a Date as
  \<open>{__type: "Date", value: iso}\<close>, and neither gives a Date back. The structured unit
  encodes with \<open>JSON.stringify\<close> alone and decodes with \<open>JSON.parse\<close> alone: the store
  \<open>{when: Date}\<close> is written with the ISO string in place of the Date and decoded to
  \<open>{when: iso}\<close>. The scalar unit's \<open>serializeData\<close> has a replacer for Dates, but the
  replacer is handed the ISO string and writes it as it is, so that a scalar unit holding
  a Date writes the string too and \<open>deserializeData\<close> gives the string back. Where a
  tagged object does arrive, \<open>deserializeData\<close> makes a Date of it with the host's
  constructor, which gives an invalid Date for a text it cannot read, not the string
  \<open>Invalid Date: ...\<close>.
\<close>

theorem dates_do_not_survive_the_codec:
  fixes newDate :: "int jsvalue \<Rightarrow> string option"
  shows
  "JSON_stringify (envelope (JObj [(''when'', JDate (Some ''2020-01-01T00:00:00.000Z''))]) (5::int))
     = Json (JObj [(''data'', JObj [(''when'', JStr ''2020-01-01T00:00:00.000Z'')]), (''timestamp'', JNum 5)])
   \<and> decode_envelope (JSON_stringify (envelope (JObj [(''when'', JDate (Some ''2020-01-01T00:00:00.000Z''))]) (5::int)))
     = Some (JObj [(''when'', JStr ''2020-01-01T00:00:00.000Z'')], 5)
   \<and> serializeData (JObj [(''timestamp'', JNum (5::int)), (''data'', JDate (Some ''2020-01-01T00:00:00.000Z'')),
                            (''type'', JStr ''object'')])
     = Inr (Json (JObj [(''timestamp'', JNum 5), (''data'', JStr ''2020-01-01T00:00:00.000Z''),
                        (''type'', JStr ''object'')]))
   \<and> deserializeData newDate
        (Json (JObj [(''timestamp'', JNum 5), (''data'', JStr ''2020-01-01T00:00:00.000Z''),
                     (''type'', JStr ''object'')]))
     = Inr (JObj [(''timestamp'', JNum 5), (''data'', JStr ''2020-01-01T00:00:00.000Z''),
                  (''type'', JStr ''object'')])
   \<and> deserializeData newDate
        (Json (JObj [(''timestamp'', JNum 5),
                     (''data'', JObj [(''__type'', JStr ''Date''), (''value'', JStr ''no date'')]),
                     (''type'', JStr ''object'')]))
     = Inr (JObj [(''timestamp'', JNum 5), (''data'', JDate (newDate (JStr ''no date''))),
                  (''type'', JStr ''object'')])"
  by (simp add: JSON_stringify_def envelope_def decode_envelope_def isValidSyncData_def
        serializeData_def serialize_plain deserializeData_def reviver_def)


section \<open>Teardown\<close>

lemma closed_unit_fields [simp]:
  "key (closed_unit u) = key u"
  "store (closed_unit u) = store u"
  "lastUpdate (closed_unit u) = lastUpdate u"
  "storageType (closed_unit u) = storageType u"
  "storageListener (closed_unit u) = storageListener u"
  "pollingInterval (closed_unit u) = pollingInterval u"
  "lastData (closed_unit u) = lastData u"
  "channel (closed_unit u) = None"
  "closed_unit (closed_unit u) = closed_unit u"
  by (simp_all add: closed_unit_def)

lemma close_channel_eq:
  "units w uid = Some u \<Longrightarrow>
   close_channel uid w = Done (w\<lparr>units := (units w)(uid \<mapsto> closed_unit u)\<rparr>)"
  by (simp add: close_channel_def closed_unit_def upd_unit_def map_upd_triv)

lemma remove_listener_eq:
  "units w uid = Some u \<Longrightarrow>
   remove_listener uid w =
     Done (w\<lparr>storageListeners := (if storageListener u \<and> hasWindow w
                                   then removeAll uid (storageListeners w) else storageListeners w)\<rparr>)"
  by (simp add: remove_listener_def)

lemma clear_interval_eq:
  "units w uid = Some u \<Longrightarrow> pollingInterval u \<noteq> None \<longrightarrow> hasWindow w \<Longrightarrow>
   clear_interval uid w =
     Done (w\<lparr>intervals := (case pollingInterval u of
                              None \<Rightarrow> intervals w
                            | Some timer \<Rightarrow> AList.delete timer (intervals w))\<rparr>)"
  by (cases "pollingInterval u") (simp_all add: clear_interval_def)

lemma deregister_eq:
  "units w uid = Some u \<Longrightarrow>
   deregister uid w =
     Done (w\<lparr>syncFunctions := AList.delete (key u) (syncFunctions w),
             cleanupFunctions := AList.delete (key u) (cleanupFunctions w)\<rparr>)"
  by (simp add: deregister_def)

lemma cleanup_eq:
  assumes live: "units w uid = Some u" and host: "pollingInterval u \<noteq> None \<longrightarrow> hasWindow w"
  shows "cleanup uid w = Done (cleanup_result u uid w)"
proof -
  let ?w1 = "w\<lparr>units := (units w)(uid \<mapsto> closed_unit u)\<rparr>"
  let ?w2 = "?w1\<lparr>storageListeners := (if storageListener u \<and> hasWindow w
                                   then removeAll uid (storageListeners w) else storageListeners w)\<rparr>"
  let ?w3 = "?w2\<lparr>intervals := (case pollingInterval u of
                              None \<Rightarrow> intervals w
                            | Some timer \<Rightarrow> AList.delete timer (intervals w))\<rparr>"
  have s1: "close_channel uid w = Done ?w1" by (rule close_channel_eq [OF live])
  have u1: "units ?w1 uid = Some (closed_unit u)" by simp
  have s2: "remove_listener uid ?w1 = Done ?w2"
    using remove_listener_eq [OF u1] by simp
  have u2: "units ?w2 uid = Some (closed_unit u)" by simp
  have s3: "clear_interval uid ?w2 = Done ?w3"
    using clear_interval_eq [OF u2] host by (cases "pollingInterval u") simp_all
  have u3: "units ?w3 uid = Some (closed_unit u)" by simp
  have s4: "deregister uid ?w3 = Done (cleanup_result u uid w)"
    using deregister_eq [OF u3] by (cases "pollingInterval u") (simp_all add: cleanup_result_def)
  show ?thesis
    by (simp add: cleanup_def and_then_def s1 s2 s3 s4)
qed


lemma cleanup_throw_eq:
  assumes live: "units w uid = Some u" and t: "pollingInterval u \<noteq> None" and nw: "\<not> hasWindow w"
  shows "cleanup uid w =
           Threw (JsError ''ReferenceError'' ''window is not defined'')
                 (w\<lparr>units := (units w)(uid \<mapsto> closed_unit u)\<rparr>)"
proof -
  let ?w1 = "w\<lparr>units := (units w)(uid \<mapsto> closed_unit u)\<rparr>"
  have s1: "close_channel uid w = Done ?w1" by (rule close_channel_eq [OF live])
  have u1: "units ?w1 uid = Some (closed_unit u)" by simp
  have s2: "remove_listener uid ?w1 = Done ?w1"
    using remove_listener_eq [OF u1] nw by simp
  have s3: "clear_interval uid ?w1 = Threw (JsError ''ReferenceError'' ''window is not defined'') ?w1"
    using t nw by (auto simp add: clear_interval_def)
  show ?thesis
    by (simp add: cleanup_def and_then_def s1 s2 s3)
qed

lemma cleanup_no_unit: "units w uid = None \<Longrightarrow> cleanup uid w = Done w"
  by (simp add: cleanup_def and_then_def close_channel_def remove_listener_def clear_interval_def
        deregister_def)

lemma cleanup_result_fields:
  "hasWindow (cleanup_result u uid w) = hasWindow w"
  "hasLocalStorage (cleanup_result u uid w) = hasLocalStorage w"
  "hasBroadcastChannel (cleanup_result u uid w) = hasBroadcastChannel w"
  "quotaExceeded (cleanup_result u uid w) = quotaExceeded w"
  "localStorage (cleanup_result u uid w) = localStorage w"
  "posted (cleanup_result u uid w) = posted w"
  "console (cleanup_result u uid w) = console w"
  "invoked (cleanup_result u uid w) = invoked w"
  "syncCalls (cleanup_result u uid w) = syncCalls w"
  "nextUnit (cleanup_result u uid w) = nextUnit w"
  "nextTimer (cleanup_result u uid w) = nextTimer w"
  "syncFunctions (cleanup_result u uid w) = AList.delete (key u) (syncFunctions w)"
  "cleanupFunctions (cleanup_result u uid w) = AList.delete (key u) (cleanupFunctions w)"
  "units (cleanup_result u uid w) = (units w)(uid \<mapsto> closed_unit u)"
  by (simp_all add: cleanup_result_def)

lemma cleanup_result_idem:
  "cleanup_result (closed_unit u) uid (cleanup_result u uid w) = cleanup_result u uid w"
  by (cases "pollingInterval u") (simp_all add: cleanup_result_def delete_idem)

text \<open>
  Claim C9. Calling a unit's \<open>cleanup\<close> twice throws nothing and leaves exactly the
  context the first call left: the handle dropped (and the channel marked closed if
  there was one), the \<open>storage\<close> listener removed, the polling timer cleared, and the
  unit's key in neither registry. (A unit has a listener or a timer only in a context
  with a \<open>window\<close>: \<open>createSyncStore\<close> sets them up nowhere else.)
\<close>

theorem teardown_idempotent:
  assumes live: "units w uid = Some u"
    and host: "storageListener u \<or> pollingInterval u \<noteq> None \<longrightarrow> hasWindow w"
  shows "\<exists>w1 u1. cleanup uid w = Done w1 \<and> cleanup uid w1 = Done w1
           \<and> units w1 uid = Some u1 \<and> channel u1 = None \<and> (channel u \<noteq> None \<longrightarrow> channelClosed u1)
           \<and> (storageListener u \<longrightarrow> uid \<notin> set (storageListeners w1))
           \<and> (\<forall>timer. pollingInterval u = Some timer \<longrightarrow> map_of (intervals w1) timer = None)
           \<and> map_of (syncFunctions w1) (key u) = None
           \<and> map_of (cleanupFunctions w1) (key u) = None"
proof -
  define w1 where "w1 = cleanup_result u uid w"
  have p: "pollingInterval u \<noteq> None \<longrightarrow> hasWindow w" using host by simp
  have c1: "cleanup uid w = Done w1" unfolding w1_def by (rule cleanup_eq [OF live p])
  have u1: "units w1 uid = Some (closed_unit u)" by (simp add: w1_def cleanup_result_fields)
  have p1: "pollingInterval (closed_unit u) \<noteq> None \<longrightarrow> hasWindow w1"
    using p by (simp add: w1_def cleanup_result_fields)
  have "cleanup uid w1 = Done (cleanup_result (closed_unit u) uid w1)"
    by (rule cleanup_eq [OF u1 p1])
  then have c2: "cleanup uid w1 = Done w1"
    by (simp add: w1_def cleanup_result_idem)
  have l: "storageListener u \<longrightarrow> uid \<notin> set (storageListeners w1)"
    using host by (simp add: w1_def cleanup_result_def)
  have t: "\<forall>timer. pollingInterval u = Some timer \<longrightarrow> map_of (intervals w1) timer = None"
    by (simp add: w1_def cleanup_result_def delete_conv')
  have r: "map_of (syncFunctions w1) (key u) = None" "map_of (cleanupFunctions w1) (key u) = None"
    by (simp_all add: w1_def cleanup_result_fields delete_conv')
  have ch: "channel (closed_unit u) = None" "channel u \<noteq> None \<longrightarrow> channelClosed (closed_unit u)"
    by (simp_all add: closed_unit_def)
  from c1 c2 u1 ch l t r show ?thesis by blast
qed

theorem teardown_idempotent_witness:
  "units polling_tab 0 = Some polling_unit
   \<and> storageListener polling_unit \<and> pollingInterval polling_unit = Some 1 \<and> hasWindow polling_tab
   \<and> (\<exists>w1 u1. cleanup 0 polling_tab = Done w1 \<and> cleanup 0 w1 = Done w1
         \<and> units w1 0 = Some u1 \<and> channel u1 = None
         \<and> 0 \<notin> set (storageListeners w1)
         \<and> map_of (intervals w1) 1 = None
         \<and> map_of (syncFunctions w1) (Some ''counter'') = None
         \<and> map_of (cleanupFunctions w1) (Some ''counter'') = None)"
proof -
  have live: "units polling_tab 0 = Some polling_unit" by (simp add: polling_tab_eq)
  have w: "hasWindow polling_tab" by (simp add: polling_tab_eq browser_def)
  then have host: "storageListener polling_unit \<or> pollingInterval polling_unit \<noteq> None
                   \<longrightarrow> hasWindow polling_tab"
    by simp
  have f: "storageListener polling_unit" "pollingInterval polling_unit = Some 1"
          "key polling_unit = Some ''counter''"
    by (simp_all add: polling_unit_def)
  show ?thesis
    using live w f teardown_idempotent [OF live host] by (simp add: f) blast
qed

lemma cleanup_state:
  "state_of (cleanup uid w) =
     (case units w uid of
        None \<Rightarrow> w
      | Some u \<Rightarrow>
          if pollingInterval u \<noteq> None \<and> \<not> hasWindow w
          then w\<lparr>units := (units w)(uid \<mapsto> closed_unit u)\<rparr>
          else cleanup_result u uid w)"
proof (cases "units w uid")
  case None
  then show ?thesis by (simp add: cleanup_no_unit)
next
  case (Some u)
  show ?thesis
  proof (cases "pollingInterval u \<noteq> None \<and> \<not> hasWindow w")
    case True
    with Some show ?thesis using cleanup_throw_eq [OF Some] by simp
  next
    case False
    with Some show ?thesis using cleanup_eq [OF Some] by auto
  qed
qed

lemma cleanup_threw:
  "threw (cleanup uid w) \<longleftrightarrow>
     (\<exists>u. units w uid = Some u \<and> pollingInterval u \<noteq> None \<and> \<not> hasWindow w)"
proof (cases "units w uid")
  case None
  then show ?thesis by (simp add: cleanup_no_unit)
next
  case (Some u)
  show ?thesis
  proof (cases "pollingInterval u \<noteq> None \<and> \<not> hasWindow w")
    case True
    with Some show ?thesis using cleanup_throw_eq [OF Some] by simp
  next
    case False
    with Some show ?thesis using cleanup_eq [OF Some] by auto
  qed
qed

lemma cleanup_frame:
  "invoked (state_of (cleanup uid w)) = invoked w"
  "localStorage (state_of (cleanup uid w)) = localStorage w"
  "console (state_of (cleanup uid w)) = console w"
  "hasWindow (state_of (cleanup uid w)) = hasWindow w"
  "hasLocalStorage (state_of (cleanup uid w)) = hasLocalStorage w"
  "nextUnit (state_of (cleanup uid w)) = nextUnit w"
  "syncCalls (state_of (cleanup uid w)) = syncCalls w"
  "posted (state_of (cleanup uid w)) = posted w"
  by (simp_all add: cleanup_state cleanup_result_fields split: option.splits)

subsection \<open>Teardown of a scalar unit\<close>

lemma signal_closed_fields [simp]:
  "sig_key (signal_closed u) = sig_key u"
  "sig_storageListener (signal_closed u) = sig_storageListener u"
  "sig_pollingIntervalId (signal_closed u) = sig_pollingIntervalId u"
  "sig_throttleTimeout (signal_closed u) = None"
  by (simp_all add: signal_closed_def)

lemma signal_clear_throttle_eq:
  "signals w i = Some u \<Longrightarrow>
   signal_clear_throttle i w =
     Done (w\<lparr>signals := (signals w)(i \<mapsto> u\<lparr>sig_throttleTimeout := None\<rparr>),
             timeouts := (case sig_throttleTimeout u of
                            None \<Rightarrow> timeouts w
                          | Some timer \<Rightarrow> AList.delete timer (timeouts w))\<rparr>)"
  by (cases "sig_throttleTimeout u")
     (simp_all add: signal_clear_throttle_def upd_signal_def map_upd_triv)

lemma signal_close_channel_eq:
  "signals w i = Some u \<Longrightarrow>
   signal_close_channel i w =
     Done (w\<lparr>signals := (signals w)
             (i \<mapsto> u\<lparr>sig_channel := map_option (\<lambda>h. ChanClosed) (sig_channel u)\<rparr>)\<rparr>)"
  by (cases "sig_channel u") (simp_all add: signal_close_channel_def upd_signal_def map_upd_triv)

lemma signal_remove_listener_eq:
  "signals w i = Some u \<Longrightarrow>
   signal_remove_listener i w =
     Done (w\<lparr>storageListeners := (if sig_storageListener u \<and> hasWindow w
                                   then removeAll i (storageListeners w) else storageListeners w)\<rparr>)"
  by (simp add: signal_remove_listener_def)

lemma signal_clear_interval_eq:
  "signals w i = Some u \<Longrightarrow> sig_pollingIntervalId u \<noteq> None \<longrightarrow> hasWindow w \<Longrightarrow>
   signal_clear_interval i w =
     Done (w\<lparr>intervals := (case sig_pollingIntervalId u of
                              None \<Rightarrow> intervals w
                            | Some timer \<Rightarrow> AList.delete timer (intervals w))\<rparr>)"
  by (cases "sig_pollingIntervalId u") (simp_all add: signal_clear_interval_def)

lemma signal_deregister_eq:
  "signals w i = Some u \<Longrightarrow>
   signal_deregister i w =
     Done (w\<lparr>syncFunctions := AList.delete (sig_key u) (syncFunctions w),
             cleanupFunctions := AList.delete (sig_key u) (cleanupFunctions w)\<rparr>)"
  by (simp add: signal_deregister_def)

lemma signal_detach_eq:
  assumes live: "signals w i = Some u"
  shows "and_then (signal_clear_throttle i)
           (and_then (signal_close_channel i) (and_then (signal_remove_listener i) rest)) w
         = rest (signal_detached u i w)"
proof -
  let ?w1 = "w\<lparr>signals := (signals w)(i \<mapsto> u\<lparr>sig_throttleTimeout := None\<rparr>),
               timeouts := (case sig_throttleTimeout u of
                              None \<Rightarrow> timeouts w
                            | Some timer \<Rightarrow> AList.delete timer (timeouts w))\<rparr>"
  let ?w2 = "w\<lparr>timeouts := (case sig_throttleTimeout u of
                              None \<Rightarrow> timeouts w
                            | Some timer \<Rightarrow> AList.delete timer (timeouts w)),
               signals := (signals w)(i \<mapsto> signal_closed u)\<rparr>"
  have s1: "signal_clear_throttle i w = Done ?w1" by (rule signal_clear_throttle_eq [OF live])
  have u1: "signals ?w1 i = Some (u\<lparr>sig_throttleTimeout := None\<rparr>)" by simp
  have s2: "signal_close_channel i ?w1 = Done ?w2"
    using signal_close_channel_eq [OF u1] by (simp add: signal_closed_def)
  have u2: "signals ?w2 i = Some (signal_closed u)" by simp
  have s3: "signal_remove_listener i ?w2 = Done (signal_detached u i w)"
    using signal_remove_listener_eq [OF u2] by (simp add: signal_detached_def)
  have "and_then (signal_clear_throttle i)
           (and_then (signal_close_channel i) (and_then (signal_remove_listener i) rest)) w
        = and_then (signal_close_channel i) (and_then (signal_remove_listener i) rest) ?w1"
    by (simp only: and_then_def s1 outcome.case)
  also have "\<dots> = and_then (signal_remove_listener i) rest ?w2"
    by (simp only: and_then_def s2 outcome.case)
  also have "\<dots> = rest (signal_detached u i w)"
    by (simp only: and_then_def s3 outcome.case)
  finally show ?thesis .
qed

lemma signal_detached_unit [simp]:
  "signals (signal_detached u i w) i = Some (signal_closed u)"
  "hasWindow (signal_detached u i w) = hasWindow w"
  by (simp_all add: signal_detached_def)

lemma signal_cleanup_eq:
  assumes live: "signals w i = Some u" and host: "sig_pollingIntervalId u \<noteq> None \<longrightarrow> hasWindow w"
  shows "signal_cleanup i w = Done (signal_cleanup_result u i w)"
proof -
  let ?w3 = "signal_detached u i w"
  let ?w4 = "?w3\<lparr>intervals := (case sig_pollingIntervalId u of
                              None \<Rightarrow> intervals w
                            | Some timer \<Rightarrow> AList.delete timer (intervals w))\<rparr>"
  have u3: "signals ?w3 i = Some (signal_closed u)" by simp
  have s4: "signal_clear_interval i ?w3 = Done ?w4"
    using signal_clear_interval_eq [OF u3] host
    by (cases "sig_pollingIntervalId u") (simp_all add: signal_detached_def)
  have u4: "signals ?w4 i = Some (signal_closed u)" by simp
  have s5: "signal_deregister i ?w4 = Done (signal_cleanup_result u i w)"
    using signal_deregister_eq [OF u4]
    by (cases "sig_pollingIntervalId u")
       (simp_all add: signal_cleanup_result_def signal_detached_def signal_closed_def)
  have "signal_cleanup i w
          = and_then (signal_clear_interval i) (signal_deregister i) (signal_detached u i w)"
    unfolding signal_cleanup_def by (rule signal_detach_eq [OF live])
  also have "\<dots> = signal_deregister i ?w4"
    by (simp only: and_then_def s4 outcome.case)
  finally show ?thesis by (simp only: s5)
qed

lemma signal_cleanup_throw_eq:
  assumes live: "signals w i = Some u" and t: "sig_pollingIntervalId u \<noteq> None" and nw: "\<not> hasWindow w"
  shows "signal_cleanup i w =
           Threw (JsError ''ReferenceError'' ''window is not defined'') (signal_detached u i w)"
proof -
  have u3: "signals (signal_detached u i w) i = Some (signal_closed u)" by simp
  have s4: "signal_clear_interval i (signal_detached u i w)
              = Threw (JsError ''ReferenceError'' ''window is not defined'') (signal_detached u i w)"
    using t nw by (auto simp add: signal_clear_interval_def)
  have "signal_cleanup i w
          = and_then (signal_clear_interval i) (signal_deregister i) (signal_detached u i w)"
    unfolding signal_cleanup_def by (rule signal_detach_eq [OF live])
  then show ?thesis
    by (simp only: and_then_def s4 outcome.case)
qed

lemma signal_cleanup_no_unit: "signals w i = None \<Longrightarrow> signal_cleanup i w = Done w"
  by (simp add: signal_cleanup_def and_then_def signal_clear_throttle_def signal_close_channel_def
        signal_remove_listener_def signal_clear_interval_def signal_deregister_def)

lemma signal_cleanup_state:
  "state_of (signal_cleanup i w) =
     (case signals w i of
        None \<Rightarrow> w
      | Some u \<Rightarrow>
          if sig_pollingIntervalId u \<noteq> None \<and> \<not> hasWindow w
          then signal_detached u i w
          else signal_cleanup_result u i w)"
proof (cases "signals w i")
  case None
  then show ?thesis by (simp add: signal_cleanup_no_unit)
next
  case (Some u)
  show ?thesis
  proof (cases "sig_pollingIntervalId u \<noteq> None \<and> \<not> hasWindow w")
    case True
    with Some show ?thesis using signal_cleanup_throw_eq [OF Some] by simp
  next
    case False
    with Some show ?thesis using signal_cleanup_eq [OF Some] by auto
  qed
qed

lemma signal_cleanup_threw:
  "threw (signal_cleanup i w) \<longleftrightarrow>
     (\<exists>u. signals w i = Some u \<and> sig_pollingIntervalId u \<noteq> None \<and> \<not> hasWindow w)"
proof (cases "signals w i")
  case None
  then show ?thesis by (simp add: signal_cleanup_no_unit)
next
  case (Some u)
  show ?thesis
  proof (cases "sig_pollingIntervalId u \<noteq> None \<and> \<not> hasWindow w")
    case True
    with Some show ?thesis using signal_cleanup_throw_eq [OF Some] by simp
  next
    case False
    with Some show ?thesis using signal_cleanup_eq [OF Some] by auto
  qed
qed

lemma signal_cleanup_result_fields:
  "hasWindow (signal_cleanup_result u i w) = hasWindow w"
  "hasLocalStorage (signal_cleanup_result u i w) = hasLocalStorage w"
  "localStorage (signal_cleanup_result u i w) = localStorage w"
  "posted (signal_cleanup_result u i w) = posted w"
  "console (signal_cleanup_result u i w) = console w"
  "invoked (signal_cleanup_result u i w) = invoked w"
  "syncCalls (signal_cleanup_result u i w) = syncCalls w"
  "nextUnit (signal_cleanup_result u i w) = nextUnit w"
  "units (signal_cleanup_result u i w) = units w"
  "syncFunctions (signal_cleanup_result u i w) = AList.delete (sig_key u) (syncFunctions w)"
  "cleanupFunctions (signal_cleanup_result u i w) = AList.delete (sig_key u) (cleanupFunctions w)"
  "signals (signal_cleanup_result u i w) = (signals w)(i \<mapsto> signal_closed u)"
  by (simp_all add: signal_cleanup_result_def signal_closed_def)

lemma signal_cleanup_frame:
  "invoked (state_of (signal_cleanup i w)) = invoked w"
  "localStorage (state_of (signal_cleanup i w)) = localStorage w"
  "console (state_of (signal_cleanup i w)) = console w"
  "hasWindow (state_of (signal_cleanup i w)) = hasWindow w"
  "hasLocalStorage (state_of (signal_cleanup i w)) = hasLocalStorage w"
  "nextUnit (state_of (signal_cleanup i w)) = nextUnit w"
  "syncCalls (state_of (signal_cleanup i w)) = syncCalls w"
  "posted (state_of (signal_cleanup i w)) = posted w"
  "units (state_of (signal_cleanup i w)) = units w"
  by (simp_all add: signal_cleanup_state signal_cleanup_result_fields signal_detached_def
        split: option.splits)

lemma cleanup_signals [simp]: "signals (state_of (cleanup uid w)) = signals w"
  by (simp add: cleanup_state cleanup_result_def split: option.splits)

subsection \<open>Calling a registered cleanup\<close>

lemma call_cleanup_frame:
  "invoked (state_of (call_cleanup f w)) = invoked w @ [f]"
  "localStorage (state_of (call_cleanup f w)) = localStorage w"
  "hasWindow (state_of (call_cleanup f w)) = hasWindow w"
  "hasLocalStorage (state_of (call_cleanup f w)) = hasLocalStorage w"
  "nextUnit (state_of (call_cleanup f w)) = nextUnit w"
  "syncCalls (state_of (call_cleanup f w)) = syncCalls w"
  "posted (state_of (call_cleanup f w)) = posted w"
  "console (state_of (call_cleanup f w)) = console w"
  by (cases f; simp add: cleanup_frame signal_cleanup_frame Let_def)+

lemma call_cleanup_threw:
  "threw (call_cleanup f w) \<longleftrightarrow>
     (case f of
        StoreCleanup uid \<Rightarrow> (\<exists>u. units w uid = Some u \<and> pollingInterval u \<noteq> None \<and> \<not> hasWindow w)
      | SignalCleanup i \<Rightarrow>
          (\<exists>u. signals w i = Some u \<and> sig_pollingIntervalId u \<noteq> None \<and> \<not> hasWindow w)
      | ForeignCleanup i throws \<Rightarrow> throws)"
  by (cases f) (simp_all add: cleanup_threw signal_cleanup_threw Let_def)

lemma clearSyncData_eq:
  "clearSyncData k ty w =
     Done (case map_of (cleanupFunctions w) (Some k) of
             None \<Rightarrow> clear_entry k ty w
           | Some f \<Rightarrow>
               (case call_cleanup f w of
                  Done w1 \<Rightarrow> clear_entry k ty w1
                | Threw e w1 \<Rightarrow> w1\<lparr>console := console w1 @ [''Failed to clear sync data:'']\<rparr>))"
  by (simp add: clearSyncData_def try_catch_def and_then_def console_error_def clear_entry_def Let_def
        split: option.splits outcome.splits)

lemma clear_entry_fields:
  "invoked (clear_entry k ty w) = invoked w"
  "units (clear_entry k ty w) = units w"
  "console (clear_entry k ty w) = console w"
  "syncFunctions (clear_entry k ty w) = AList.delete (Some k) (syncFunctions w)"
  "cleanupFunctions (clear_entry k ty w) = AList.delete (Some k) (cleanupFunctions w)"
  "localStorage (clear_entry k ty w) =
     (if hasWindow w \<and> hasLocalStorage w
      then AList.delete (flavor_prefix ty @ k) (localStorage w) else localStorage w)"
  by (simp_all add: clear_entry_def removeItem_def Let_def)

lemma clear_entry_flavor:
  "(clear_entry k ty w)\<lparr>localStorage := ls\<rparr> = (clear_entry k ty' w)\<lparr>localStorage := ls\<rparr>"
  by (simp add: clear_entry_def removeItem_def Let_def)

section \<open>The registries\<close>

lemma after_failed_load_registries:
  "syncFunctions (after_failed_load opts now0 w) = syncFunctions (before_load opts now0 w)"
  "cleanupFunctions (after_failed_load opts now0 w) = cleanupFunctions (before_load opts now0 w)"
  by (simp_all add: after_failed_load_def Let_def split: option.splits payload.splits)

lemma createSyncStore_registries:
  fixes w :: "('n::{zero,linorder}) world"
  shows "\<exists>w'. createSyncStore (Some opts) now0 now1 w = Done w'
           \<and> syncFunctions w' = AList.update (opt_key opts) (StoreSync (nextUnit w)) (syncFunctions w)
           \<and> cleanupFunctions w' = AList.update (opt_key opts) (StoreCleanup (nextUnit w)) (cleanupFunctions w)"
proof -
  from before_load_unit [of opts now0 w] obtain u3 where
    u3: "units (before_load opts now0 w) (nextUnit w) = Some u3" and k: "key u3 = opt_key opts"
    by blast
  show ?thesis
  proof (cases "opt_persistOnLoad opts = Some False")
    case True
    then show ?thesis
      by (simp add: create_no_persist register_cleanup_fields before_load_fields)
  next
    case False
    show ?thesis
    proof (cases "stored_envelope w (storeKey (opt_key opts))")
      case None
      show ?thesis
        by (simp add: create_seeded [OF False u3 k None] register_cleanup_fields
              sync_result_fields after_failed_load_registries before_load_fields)
    next
      case (Some e)
      obtain d t where "e = (d, t)" by (cases e)
      with Some have s: "stored_envelope w (storeKey (opt_key opts)) = Some (d, t)" by simp
      show ?thesis
        by (simp add: create_loaded [OF False u3 k s] register_cleanup_fields before_load_fields)
    qed
  qed
qed

subsection \<open>Construction of a scalar unit\<close>

lemma signal_step_refl: "signal_step i w w"
  by (simp add: signal_step_def)

lemma signal_step_trans: "signal_step i w w1 \<Longrightarrow> signal_step i w1 w2 \<Longrightarrow> signal_step i w w2"
  unfolding signal_step_def by (metis (no_types, lifting))

lemma upd_signal_step: "(\<And>u. sig_key (f u) = sig_key u) \<Longrightarrow> signal_step i w (upd_signal i f w)"
  by (auto simp add: signal_step_def upd_signal_def)

lemma signal_load_step: "signal_step i w (snd (signal_loadExistingData newDate i w))"
  by (auto simp add: signal_loadExistingData_def signal_step_def upd_signal_def console_error_def
        Let_def split: option.splits sum.splits jsvalue.splits)

lemma signal_sync_step: "\<exists>w'. signal_sync i t w = Done w' \<and> signal_step i w w'"
  by (auto simp add: signal_sync_def serializeData_plain signal_step_def upd_signal_def
        console_error_def try_catch_def and_then_def signal_postMessage_def signal_save_def
        setItem_def Let_def split: option.splits handle.splits)

lemma signal_persist_step: "\<exists>w'. signal_persist newDate i t w = Done w' \<and> signal_step i w w'"
proof (cases "signal_loadExistingData newDate i w")
  case (Pair b w1)
  have s1: "signal_step i w w1" using signal_load_step [of i w newDate] Pair by simp
  show ?thesis
  proof (cases b)
    case True
    with Pair s1 show ?thesis by (simp add: signal_persist_def)
  next
    case False
    from signal_sync_step [of i t w1] obtain w2 where
      "signal_sync i t w1 = Done w2" "signal_step i w1 w2" by blast
    with Pair False s1 show ?thesis
      by (auto simp add: signal_persist_def intro: signal_step_trans)
  qed
qed

lemma signal_transport_step: "signal_step i w (signal_transport newDate i opts w)"
proof -
  let ?open = "upd_signal i (\<lambda>u'. u'\<lparr>sig_channel := Some ChanOpen\<rparr>) w"
  let ?w1 = "(upd_signal i (\<lambda>u'. u'\<lparr>sig_storageListener := True\<rparr>) w)
               \<lparr>storageListeners := storageListeners w @ [i]\<rparr>"
  let ?w2 = "snd (signal_loadExistingData newDate i ?w1)"
  have a: "signal_step i w (snd (signal_loadExistingData newDate i ?open))"
    using upd_signal_step [of "\<lambda>u'. u'\<lparr>sig_channel := Some ChanOpen\<rparr>" i w]
      signal_load_step [of i ?open newDate]
    by (auto intro: signal_step_trans)
  have "signal_step i w ?w1"
    by (auto simp add: signal_step_def upd_signal_def)
  then have b: "signal_step i w ?w2"
    using signal_load_step [of i ?w1 newDate] by (auto intro: signal_step_trans)
  have c: "signal_step i ?w2
             ((upd_signal i f ?w2)\<lparr>intervals := x, nextTimer := y\<rparr>)"
    if "\<And>u. sig_key (f u) = sig_key u" for f x y
    using that by (auto simp add: signal_step_def upd_signal_def)
  have d: "signal_step i w ((upd_signal i f ?w2)\<lparr>intervals := x, nextTimer := y\<rparr>)"
    if "\<And>u. sig_key (f u) = sig_key u" for f x y
    using b c [OF that] by (rule signal_step_trans)
  show ?thesis
    using a b d
    by (simp add: signal_transport_def Let_def signal_step_refl split: option.splits)
qed

lemma createSyncSignal_eq:
  fixes w :: "('n::{zero,linorder}) world"
  shows "\<exists>w' u'. createSyncSignal v (Some opts) newDate now0 now1 w = Done w'
           \<and> syncFunctions w' = AList.update (so_key opts) (SignalSync (nextUnit w)) (syncFunctions w)
           \<and> cleanupFunctions w' = AList.update (so_key opts) (SignalCleanup (nextUnit w)) (cleanupFunctions w)
           \<and> nextUnit w' = Suc (nextUnit w) \<and> units w' = units w \<and> hasWindow w' = hasWindow w
           \<and> signals w' (nextUnit w) = Some u' \<and> sig_key u' = so_key opts
           \<and> (\<forall>j. j \<noteq> nextUnit w \<longrightarrow> signals w' j = signals w j)"
proof -
  let ?i = "nextUnit w"
  let ?u0 = "\<lparr>sig_key = so_key opts, sig_value = v, sig_lastUpdate = now0,
               sig_channel = None, sig_storageListener = False, sig_pollingIntervalId = None,
               sig_throttleTimeout = None,
               sig_throttleMs = (case so_throttleMs opts of None \<Rightarrow> 50 | Some ms \<Rightarrow> ms),
               sig_lastData = None, sig_autoSync = False\<rparr>"
  let ?w2 = "register_sync (so_key opts) (SignalSync ?i)
               (w\<lparr>signals := (signals w)(?i \<mapsto> ?u0), nextUnit := Suc ?i\<rparr>)"
  let ?w3 = "signal_transport newDate ?i opts ?w2"
  have s3: "signal_step ?i ?w2 ?w3" by (rule signal_transport_step)
  obtain w4 where
    p: "(if so_persistOnLoad opts \<noteq> Some False then signal_persist newDate ?i now1 ?w3 else Done ?w3)
          = Done w4"
    and s4: "signal_step ?i ?w3 w4"
    using signal_persist_step [of newDate ?i now1 ?w3] signal_step_refl [of ?i ?w3]
    by (cases "so_persistOnLoad opts \<noteq> Some False") auto
  let ?w5 = "if so_autoSync opts = Some True
             then upd_signal ?i (\<lambda>u'. u'\<lparr>sig_autoSync := True\<rparr>) w4 else w4"
  have s5: "signal_step ?i w4 ?w5"
    using upd_signal_step [of "\<lambda>u'. u'\<lparr>sig_autoSync := True\<rparr>" ?i w4]
    by (simp add: signal_step_refl)
  have s: "signal_step ?i ?w2 ?w5"
    using s3 s4 s5 by (blast intro: signal_step_trans)
  have c: "createSyncSignal v (Some opts) newDate now0 now1 w
             = Done (register_cleanup (so_key opts) (SignalCleanup ?i) ?w5)"
    using p by (simp add: createSyncSignal_def Let_def and_then_def)
  have u2: "signals ?w2 ?i = Some ?u0" by (simp add: register_sync_def)
  from s u2 obtain u' where u': "signals ?w5 ?i = Some u'" "sig_key u' = so_key opts"
    unfolding signal_step_def by fastforce
  have o: "\<forall>j. j \<noteq> ?i \<longrightarrow> signals ?w5 j = signals w j"
    using s unfolding signal_step_def by (simp add: register_sync_def)
  have f: "syncFunctions ?w5 = AList.update (so_key opts) (SignalSync ?i) (syncFunctions w)"
    "cleanupFunctions ?w5 = cleanupFunctions w" "nextUnit ?w5 = Suc ?i" "units ?w5 = units w"
    "hasWindow ?w5 = hasWindow w"
    using s unfolding signal_step_def by (simp_all add: register_sync_def)
  show ?thesis
    using c u' o f by (simp add: register_cleanup_def)
qed

lemma scalar_tab_eq:
  "scalar_tab =
     browser\<lparr>signals := (\<lambda>i. None)(0 \<mapsto> scalar_unit), nextUnit := 1,
             syncFunctions := [(Some ''counter'', SignalSync 0)],
             cleanupFunctions := [(Some ''counter'', SignalCleanup 0)],
             localStorage :=
               [(''syncsignal-counter'',
                 Json (JObj [(''timestamp'', JNum 10), (''data'', JNum 1), (''type'', JStr ''number'')]))],
             posted :=
               [(''syncsignal-counter'',
                 Json (JObj [(''timestamp'', JNum 10), (''data'', JNum 1), (''type'', JStr ''number'')]))],
             syncCalls := 1\<rparr>"
  by (simp add: scalar_tab_def scalar_unit_def scalar_options_def browser_def createSyncSignal_def
        signal_transport_def signal_persist_def signal_loadExistingData_def signal_sync_def
        signal_postMessage_def signal_save_def serializeData_plain JSON_stringify_def
        upd_signal_def signalKey_def register_sync_def register_cleanup_def getItem_def setItem_def
        and_then_def try_catch_def Let_def)

subsection \<open>\<open>clearSyncData\<close>\<close>

lemma clearSyncData_invoked:
  assumes "map_of (cleanupFunctions w) (Some k) = Some f"
  shows "invoked (state_of (clearSyncData k ty w)) = invoked w @ [f]"
proof (cases "call_cleanup f w")
  case (Done w1)
  then have "invoked w1 = invoked w @ [f]" using call_cleanup_frame(1) [of f w] by simp
  with Done assms show ?thesis by (simp add: clearSyncData_eq clear_entry_fields)
next
  case (Threw e w1)
  then have "invoked w1 = invoked w @ [f]" using call_cleanup_frame(1) [of f w] by simp
  with Threw assms show ?thesis by (simp add: clearSyncData_eq)
qed

lemma clearSyncData_flavor:
  "(state_of (clearSyncData k ty w))\<lparr>localStorage := ls\<rparr>
     = (state_of (clearSyncData k ty' w))\<lparr>localStorage := ls\<rparr>"
proof (cases "map_of (cleanupFunctions w) (Some k)")
  case None
  then show ?thesis
    using clear_entry_flavor [where k = k and ty = ty and w = w and ls = ls and ty' = ty']
    by (simp add: clearSyncData_eq)
next
  case (Some f)
  show ?thesis
  proof (cases "call_cleanup f w")
    case (Done w1)
    with Some show ?thesis
      using clear_entry_flavor [where k = k and ty = ty and w = w1 and ls = ls and ty' = ty']
      by (simp add: clearSyncData_eq)
  next
    case (Threw e w1)
    with Some show ?thesis by (simp add: clearSyncData_eq)
  qed
qed

lemma clearSyncData_storage:
  assumes env: "hasWindow w \<and> hasLocalStorage w"
    and quiet: "case map_of (cleanupFunctions w) (Some k) of
                  Some (ForeignCleanup i throws) \<Rightarrow> \<not> throws | _ \<Rightarrow> True"
  shows "localStorage (state_of (clearSyncData k ty w)) = AList.delete (flavor_prefix ty @ k) (localStorage w)"
proof (cases "map_of (cleanupFunctions w) (Some k)")
  case None
  then show ?thesis using env by (simp add: clearSyncData_eq clear_entry_fields)
next
  case (Some f)
  have nt: "\<not> threw (call_cleanup f w)"
    using quiet Some env call_cleanup_threw [of f w]
    by (cases f) (simp_all del: call_cleanup.simps)
  then obtain w1 where d: "call_cleanup f w = Done w1" by (cases "call_cleanup f w") simp_all
  have "localStorage w1 = localStorage w" "hasWindow w1 = hasWindow w" "hasLocalStorage w1 = hasLocalStorage w"
    using call_cleanup_frame(2,3,4) [of f w] d by simp_all
  with Some d env show ?thesis by (simp add: clearSyncData_eq clear_entry_fields)
qed

text \<open>
  Claim C10. Both registries are keyed by the key as given, with no flavor prefix.
  \<open>createSyncStore\<close> and \<open>createSyncSignal\<close> alike set their \<open>sync\<close> and their
  \<open>cleanup\<close> under that key, which replaces whatever was registered there: of a
  scalar and a structured unit created with the same key, the one created later owns
  both entries. \<open>clearSyncData(key, type)\<close> never throws and calls whatever cleanup is
  registered under the key, whatever the type; the two types give the same context but
  for the durable store, where the entry removed is the one with the type's prefix (when
  the context has a store and the cleanup called did not throw).
\<close>

theorem registries_keyed_by_bare_key:
  fixes w :: "('n::{zero,linorder}) world"
  shows
   "(\<exists>w'. createSyncStore (Some opts) now0 now1 w = Done w'
        \<and> syncFunctions w' = AList.update (opt_key opts) (StoreSync (nextUnit w)) (syncFunctions w)
        \<and> cleanupFunctions w' = AList.update (opt_key opts) (StoreCleanup (nextUnit w)) (cleanupFunctions w)
        \<and> map_of (syncFunctions w') (opt_key opts) = Some (StoreSync (nextUnit w))
        \<and> map_of (cleanupFunctions w') (opt_key opts) = Some (StoreCleanup (nextUnit w)))
    \<and> (\<exists>w'. createSyncSignal v (Some sopts) newDate now0 now1 w = Done w'
        \<and> syncFunctions w' = AList.update (so_key sopts) (SignalSync (nextUnit w)) (syncFunctions w)
        \<and> cleanupFunctions w' = AList.update (so_key sopts) (SignalCleanup (nextUnit w)) (cleanupFunctions w)
        \<and> map_of (syncFunctions w') (so_key sopts) = Some (SignalSync (nextUnit w))
        \<and> map_of (cleanupFunctions w') (so_key sopts) = Some (SignalCleanup (nextUnit w)))
    \<and> (so_key sopts = opt_key opts \<longrightarrow>
         (\<exists>w1 w2. createSyncSignal v (Some sopts) newDate now0 now1 w = Done w1
            \<and> createSyncStore (Some opts) now2 now3 w1 = Done w2
            \<and> map_of (syncFunctions w2) (opt_key opts) = Some (StoreSync (Suc (nextUnit w)))
            \<and> map_of (cleanupFunctions w2) (opt_key opts) = Some (StoreCleanup (Suc (nextUnit w))))
         \<and> (\<exists>w1 w2. createSyncStore (Some opts) now0 now1 w = Done w1
            \<and> createSyncSignal v (Some sopts) newDate now2 now3 w1 = Done w2
            \<and> map_of (syncFunctions w2) (opt_key opts) = Some (SignalSync (Suc (nextUnit w)))
            \<and> map_of (cleanupFunctions w2) (opt_key opts) = Some (SignalCleanup (Suc (nextUnit w)))))
    \<and> \<not> threw (clearSyncData k ty w)
    \<and> (map_of (cleanupFunctions w) (Some k) = Some f \<longrightarrow>
          invoked (state_of (clearSyncData k ty w)) = invoked w @ [f])
    \<and> (state_of (clearSyncData k StoreFlavor w))\<lparr>localStorage := ls\<rparr>
        = (state_of (clearSyncData k SignalFlavor w))\<lparr>localStorage := ls\<rparr>
    \<and> (hasWindow w \<and> hasLocalStorage w
        \<and> (case map_of (cleanupFunctions w) (Some k) of
              Some (ForeignCleanup i throws) \<Rightarrow> \<not> throws | _ \<Rightarrow> True) \<longrightarrow>
          localStorage (state_of (clearSyncData k ty w))
            = AList.delete (flavor_prefix ty @ k) (localStorage w))"
proof -
  have st: "\<exists>w'. createSyncStore (Some opts) t0 t1 x = Done w'
        \<and> nextUnit w' = Suc (nextUnit x)
        \<and> syncFunctions w' = AList.update (opt_key opts) (StoreSync (nextUnit x)) (syncFunctions x)
        \<and> cleanupFunctions w' = AList.update (opt_key opts) (StoreCleanup (nextUnit x)) (cleanupFunctions x)
        \<and> map_of (syncFunctions w') (opt_key opts) = Some (StoreSync (nextUnit x))
        \<and> map_of (cleanupFunctions w') (opt_key opts) = Some (StoreCleanup (nextUnit x))"
    for t0 t1 and x :: "'n world"
  proof -
    from createSyncStore_registries [of opts t0 t1 x] obtain w' where
      c: "createSyncStore (Some opts) t0 t1 x = Done w'"
      and r: "syncFunctions w' = AList.update (opt_key opts) (StoreSync (nextUnit x)) (syncFunctions x)"
         "cleanupFunctions w' = AList.update (opt_key opts) (StoreCleanup (nextUnit x)) (cleanupFunctions x)"
      by blast
    have n: "nextUnit w' = Suc (nextUnit x)"
      using createSyncStore_frame [of opts t0 t1 x] c by auto
    from c r n show ?thesis by (auto simp add: update_conv')
  qed
  have sg: "\<exists>w'. createSyncSignal v (Some sopts) newDate t0 t1 x = Done w'
        \<and> nextUnit w' = Suc (nextUnit x)
        \<and> syncFunctions w' = AList.update (so_key sopts) (SignalSync (nextUnit x)) (syncFunctions x)
        \<and> cleanupFunctions w' = AList.update (so_key sopts) (SignalCleanup (nextUnit x)) (cleanupFunctions x)
        \<and> map_of (syncFunctions w') (so_key sopts) = Some (SignalSync (nextUnit x))
        \<and> map_of (cleanupFunctions w') (so_key sopts) = Some (SignalCleanup (nextUnit x))"
    for t0 t1 and x :: "'n world"
    using createSyncSignal_eq [of v sopts newDate t0 t1 x] by (auto simp add: update_conv')
  have a: "\<exists>w'. createSyncStore (Some opts) now0 now1 w = Done w'
        \<and> syncFunctions w' = AList.update (opt_key opts) (StoreSync (nextUnit w)) (syncFunctions w)
        \<and> cleanupFunctions w' = AList.update (opt_key opts) (StoreCleanup (nextUnit w)) (cleanupFunctions w)
        \<and> map_of (syncFunctions w') (opt_key opts) = Some (StoreSync (nextUnit w))
        \<and> map_of (cleanupFunctions w') (opt_key opts) = Some (StoreCleanup (nextUnit w))"
    using st [of now0 now1 w] by blast
  have b: "\<exists>w'. createSyncSignal v (Some sopts) newDate now0 now1 w = Done w'
        \<and> syncFunctions w' = AList.update (so_key sopts) (SignalSync (nextUnit w)) (syncFunctions w)
        \<and> cleanupFunctions w' = AList.update (so_key sopts) (SignalCleanup (nextUnit w)) (cleanupFunctions w)
        \<and> map_of (syncFunctions w') (so_key sopts) = Some (SignalSync (nextUnit w))
        \<and> map_of (cleanupFunctions w') (so_key sopts) = Some (SignalCleanup (nextUnit w))"
    using sg [of now0 now1 w] by blast
  have c1: "\<exists>w1 w2. createSyncSignal v (Some sopts) newDate now0 now1 w = Done w1
            \<and> createSyncStore (Some opts) now2 now3 w1 = Done w2
            \<and> map_of (syncFunctions w2) (opt_key opts) = Some (StoreSync (Suc (nextUnit w)))
            \<and> map_of (cleanupFunctions w2) (opt_key opts) = Some (StoreCleanup (Suc (nextUnit w)))"
  proof -
    from sg [of now0 now1 w] obtain w1 where
      w1: "createSyncSignal v (Some sopts) newDate now0 now1 w = Done w1" "nextUnit w1 = Suc (nextUnit w)"
      by blast
    from st [of now2 now3 w1] w1 show ?thesis by auto
  qed
  have c2: "\<exists>w1 w2. createSyncStore (Some opts) now0 now1 w = Done w1
            \<and> createSyncSignal v (Some sopts) newDate now2 now3 w1 = Done w2
            \<and> map_of (syncFunctions w2) (opt_key opts) = Some (SignalSync (Suc (nextUnit w)))
            \<and> map_of (cleanupFunctions w2) (opt_key opts) = Some (SignalCleanup (Suc (nextUnit w)))"
    if "so_key sopts = opt_key opts"
  proof -
    from st [of now0 now1 w] obtain w1 where
      w1: "createSyncStore (Some opts) now0 now1 w = Done w1" "nextUnit w1 = Suc (nextUnit w)"
      by blast
    from sg [of now2 now3 w1] w1 that show ?thesis by auto
  qed
  have d: "\<not> threw (clearSyncData k ty w)" by (simp add: clearSyncData_eq)
  show ?thesis
    using a b c1 c2 d clearSyncData_invoked [of w k f ty]
      clearSyncData_flavor [where k = k and ty = StoreFlavor and w = w and ls = ls and ty' = SignalFlavor]
      clearSyncData_storage [of w k ty]
    by blast
qed

theorem registries_keyed_by_bare_key_witness:
  "map_of (cleanupFunctions scalar_tab) (Some ''counter'') = Some (SignalCleanup 0)
   \<and> (\<exists>w'. createSyncStore (Some counter_options) 20 20 scalar_tab = Done w'
         \<and> map_of (syncFunctions w') (Some ''counter'') = Some (StoreSync 1)
         \<and> map_of (cleanupFunctions w') (Some ''counter'') = Some (StoreCleanup 1))
   \<and> map_of (cleanupFunctions counter_tab) (Some ''counter'') = Some (StoreCleanup 0)
   \<and> (\<exists>w'. createSyncSignal (JNum 1) (Some scalar_options) iso_dates 20 20 counter_tab = Done w'
         \<and> map_of (syncFunctions w') (Some ''counter'') = Some (SignalSync 1)
         \<and> map_of (cleanupFunctions w') (Some ''counter'') = Some (SignalCleanup 1))
   \<and> so_key scalar_options = opt_key counter_options
   \<and> (\<exists>w1 w2. createSyncSignal (JNum 1) (Some scalar_options) iso_dates 10 10 browser = Done w1
         \<and> createSyncStore (Some counter_options) 20 20 w1 = Done w2
         \<and> map_of (syncFunctions w2) (Some ''counter'') = Some (StoreSync 1)
         \<and> map_of (cleanupFunctions w2) (Some ''counter'') = Some (StoreCleanup 1))
   \<and> (\<exists>w1 w2. createSyncStore (Some counter_options) 10 10 browser = Done w1
         \<and> createSyncSignal (JNum 1) (Some scalar_options) iso_dates 20 20 w1 = Done w2
         \<and> map_of (syncFunctions w2) (Some ''counter'') = Some (SignalSync 1)
         \<and> map_of (cleanupFunctions w2) (Some ''counter'') = Some (SignalCleanup 1))
   \<and> hasWindow scalar_tab \<and> hasLocalStorage scalar_tab
   \<and> invoked (state_of (clearSyncData ''counter'' StoreFlavor scalar_tab)) = [SignalCleanup 0]
   \<and> localStorage (state_of (clearSyncData ''counter'' StoreFlavor scalar_tab))
       = [(''syncsignal-counter'',
           Json (JObj [(''timestamp'', JNum 10), (''data'', JNum 1), (''type'', JStr ''number'')]))]
   \<and> hasWindow counter_tab \<and> hasLocalStorage counter_tab
   \<and> invoked (state_of (clearSyncData ''counter'' SignalFlavor counter_tab)) = [StoreCleanup 0]
   \<and> localStorage (state_of (clearSyncData ''counter'' SignalFlavor counter_tab))
       = [(''syncstore-counter'', Json (envelope (JObj [(''count'', JNum 0)]) 10))]"
proof -
  have k: "so_key scalar_options = Some ''counter''" "opt_key counter_options = Some ''counter''"
    by (simp_all add: scalar_options_def counter_options_def)
  have n: "nextUnit scalar_tab = 1" "nextUnit counter_tab = 1" "nextUnit browser = 0"
    by (simp_all add: scalar_tab_eq counter_tab_eq browser_def)
  have s: "map_of (cleanupFunctions scalar_tab) (Some ''counter'') = Some (SignalCleanup 0)"
    by (simp add: scalar_tab_eq)
  have r: "map_of (cleanupFunctions counter_tab) (Some ''counter'') = Some (StoreCleanup 0)"
    by (simp add: counter_tab_eq)
  have a: "\<exists>w'. createSyncStore (Some counter_options) 20 20 scalar_tab = Done w'
         \<and> map_of (syncFunctions w') (Some ''counter'') = Some (StoreSync 1)
         \<and> map_of (cleanupFunctions w') (Some ''counter'') = Some (StoreCleanup 1)"
    using registries_keyed_by_bare_key
            [where opts = counter_options and ?now0.0 = 20 and ?now1.0 = 20 and w = scalar_tab]
    by (simp add: n k) blast
  have b: "\<exists>w'. createSyncSignal (JNum 1) (Some scalar_options) iso_dates 20 20 counter_tab = Done w'
         \<and> map_of (syncFunctions w') (Some ''counter'') = Some (SignalSync 1)
         \<and> map_of (cleanupFunctions w') (Some ''counter'') = Some (SignalCleanup 1)"
    using registries_keyed_by_bare_key
            [where sopts = scalar_options and v = "JNum 1" and newDate = iso_dates
               and ?now0.0 = 20 and ?now1.0 = 20 and w = counter_tab]
    by (simp add: n k) blast
  have c: "(\<exists>w1 w2. createSyncSignal (JNum 1) (Some scalar_options) iso_dates 10 10 browser = Done w1
         \<and> createSyncStore (Some counter_options) 20 20 w1 = Done w2
         \<and> map_of (syncFunctions w2) (Some ''counter'') = Some (StoreSync 1)
         \<and> map_of (cleanupFunctions w2) (Some ''counter'') = Some (StoreCleanup 1))
     \<and> (\<exists>w1 w2. createSyncStore (Some counter_options) 10 10 browser = Done w1
         \<and> createSyncSignal (JNum 1) (Some scalar_options) iso_dates 20 20 w1 = Done w2
         \<and> map_of (syncFunctions w2) (Some ''counter'') = Some (SignalSync 1)
         \<and> map_of (cleanupFunctions w2) (Some ''counter'') = Some (SignalCleanup 1))"
    using registries_keyed_by_bare_key
            [where opts = counter_options and sopts = scalar_options and v = "JNum 1"
               and newDate = iso_dates and ?now0.0 = 10 and ?now1.0 = 10
               and ?now2.0 = 20 and ?now3.0 = 20 and w = browser]
    by (simp add: n k)
  have env: "hasWindow scalar_tab \<and> hasLocalStorage scalar_tab"
            "hasWindow counter_tab \<and> hasLocalStorage counter_tab"
    by (simp_all add: scalar_tab_eq counter_tab_eq browser_def)
  have d: "invoked (state_of (clearSyncData ''counter'' StoreFlavor scalar_tab)) = [SignalCleanup 0]
           \<and> localStorage (state_of (clearSyncData ''counter'' StoreFlavor scalar_tab))
               = [(''syncsignal-counter'',
                   Json (JObj [(''timestamp'', JNum 10), (''data'', JNum 1), (''type'', JStr ''number'')]))]"
    using env s registries_keyed_by_bare_key
            [where w = scalar_tab and k = "''counter''" and ty = StoreFlavor and f = "SignalCleanup 0"]
    by (simp add: flavor_prefix_def) (simp add: scalar_tab_eq browser_def)
  have e: "invoked (state_of (clearSyncData ''counter'' SignalFlavor counter_tab)) = [StoreCleanup 0]
           \<and> localStorage (state_of (clearSyncData ''counter'' SignalFlavor counter_tab))
               = [(''syncstore-counter'', Json (envelope (JObj [(''count'', JNum 0)]) 10))]"
    using env r registries_keyed_by_bare_key
            [where w = counter_tab and k = "''counter''" and ty = SignalFlavor and f = "StoreCleanup 0"]
    by (simp add: flavor_prefix_def) (simp add: counter_tab_eq browser_def)
  show ?thesis using s a r b c env d e by (simp add: k)
qed


section \<open>\<open>clearAllSyncData\<close>\<close>

lemma try_catch_console:
  "try_catch body (console_error m) w =
     Done (case body w of Done s \<Rightarrow> s | Threw e s \<Rightarrow> s\<lparr>console := console s @ [m]\<rparr>)"
  by (simp add: try_catch_def console_error_def split: outcome.splits)

lemma forEach_cleanup_fold: "forEach_cleanup es w = Done (fold visit es w)"
proof (induction es arbitrary: w)
  case Nil
  show ?case by simp
next
  case (Cons e es)
  show ?case
    by (simp add: Cons.IH visit_def and_then_def try_catch_console)
qed

lemma clearAllSyncData_eq: "clearAllSyncData w = Done (clearAll_result w)"
  by (simp add: clearAllSyncData_def try_catch_def and_then_def forEach_cleanup_fold
        clearAll_result_def Let_def)

lemma visit_frame:
  "localStorage (visit e w) = localStorage w"
  "hasWindow (visit e w) = hasWindow w"
  "hasLocalStorage (visit e w) = hasLocalStorage w"
  "nextUnit (visit e w) = nextUnit w"
  "syncCalls (visit e w) = syncCalls w"
  "posted (visit e w) = posted w"
  using call_cleanup_frame [of "snd e" w]
  by (cases "call_cleanup (snd e) w"; simp add: visit_def)+

lemma sweep_frame:
  "localStorage (fold visit es w) = localStorage w"
  "hasWindow (fold visit es w) = hasWindow w"
  "hasLocalStorage (fold visit es w) = hasLocalStorage w"
  "nextUnit (fold visit es w) = nextUnit w"
  "syncCalls (fold visit es w) = syncCalls w"
  "posted (fold visit es w) = posted w"
  by (induction es arbitrary: w; simp add: visit_frame)+

lemma fold_removeItem:
  "fold removeItem ks w = w\<lparr>localStorage := fold AList.delete ks (localStorage w)\<rparr>"
  by (induction ks arbitrary: w) (simp_all add: removeItem_def)

lemma fold_delete_filter:
  "fold AList.delete ks al = filter (\<lambda>kv. fst kv \<notin> set ks) al"
proof (induction ks arbitrary: al)
  case Nil
  show ?case by simp
next
  case (Cons k ks)
  have "AList.delete k al = filter (\<lambda>kv. fst kv \<noteq> k) al"
    by (auto simp add: AList.delete_eq intro: filter_cong)
  then show ?case by (auto simp add: Cons.IH intro: filter_cong)
qed

lemma keysToRemove_set: "set (keysToRemove w) = {k \<in> fst ` set (localStorage w). namespaced k}"
  by (auto simp add: keysToRemove_def namespaced_def)

lemma clearAll_localStorage:
  "hasWindow w \<Longrightarrow> hasLocalStorage w \<Longrightarrow>
   localStorage (clearAll_result w) = filter (\<lambda>kv. \<not> namespaced (fst kv)) (localStorage w)"
proof -
  assume "hasWindow w" "hasLocalStorage w"
  moreover have "keysToRemove (fold visit (cleanupFunctions w) w) = keysToRemove w"
    by (simp add: keysToRemove_def sweep_frame)
  moreover have "filter (\<lambda>kv. fst kv \<notin> set (keysToRemove w)) (localStorage w)
                 = filter (\<lambda>kv. \<not> namespaced (fst kv)) (localStorage w)"
    by (rule filter_cong) (auto simp add: keysToRemove_set)
  ultimately show ?thesis
    by (simp add: clearAll_result_def Let_def sweep_frame fold_removeItem fold_delete_filter)
qed


text \<open>Visiting an entry that is still registered, in a context with a window.\<close>

lemma visit_foreign:
  assumes "map_of (cleanupFunctions w) k = Some (ForeignCleanup i b)"
  shows "visit (k, ForeignCleanup i b) w =
           w\<lparr>invoked := invoked w @ [ForeignCleanup i b],
             console := console w @ (if b then [''Error during cleanup:''] else [])\<rparr>"
  using assms by (simp add: visit_def Let_def)

lemma visit_store_none:
  assumes "map_of (cleanupFunctions w) k = Some (StoreCleanup uid)" and "units w uid = None"
  shows "visit (k, StoreCleanup uid) w = w\<lparr>invoked := invoked w @ [StoreCleanup uid]\<rparr>"
  using assms by (simp add: visit_def cleanup_no_unit)

lemma visit_store_some:
  assumes "map_of (cleanupFunctions w) k = Some (StoreCleanup uid)" and "units w uid = Some u"
    and "hasWindow w"
  shows "visit (k, StoreCleanup uid) w =
           cleanup_result u uid (w\<lparr>invoked := invoked w @ [StoreCleanup uid]\<rparr>)"
proof -
  let ?w = "w\<lparr>invoked := invoked w @ [StoreCleanup uid]\<rparr>"
  have "units ?w uid = Some u" "pollingInterval u \<noteq> None \<longrightarrow> hasWindow ?w"
    using assms by simp_all
  then have "cleanup uid ?w = Done (cleanup_result u uid ?w)" by (rule cleanup_eq)
  with assms(1) show ?thesis by (simp add: visit_def)
qed

lemma visit_signal_none:
  assumes "map_of (cleanupFunctions w) k = Some (SignalCleanup i)" and "signals w i = None"
  shows "visit (k, SignalCleanup i) w = w\<lparr>invoked := invoked w @ [SignalCleanup i]\<rparr>"
  using assms by (simp add: visit_def signal_cleanup_no_unit)

lemma visit_signal_some:
  assumes "map_of (cleanupFunctions w) k = Some (SignalCleanup i)" and "signals w i = Some u"
    and "hasWindow w"
  shows "visit (k, SignalCleanup i) w =
           signal_cleanup_result u i (w\<lparr>invoked := invoked w @ [SignalCleanup i]\<rparr>)"
proof -
  let ?w = "w\<lparr>invoked := invoked w @ [SignalCleanup i]\<rparr>"
  have "signals ?w i = Some u" "sig_pollingIntervalId u \<noteq> None \<longrightarrow> hasWindow ?w"
    using assms by simp_all
  then have "signal_cleanup i ?w = Done (signal_cleanup_result u i ?w)" by (rule signal_cleanup_eq)
  with assms(1) show ?thesis by (simp add: visit_def)
qed

lemma cleanup_result_signals [simp]: "signals (cleanup_result u uid w) = signals w"
  by (simp add: cleanup_result_def)

lemma visit_step:
  assumes present: "map_of (cleanupFunctions w) (fst e) = Some (snd e)"
    and own: "\<forall>uid u. snd e = StoreCleanup uid \<and> units w uid = Some u \<longrightarrow> key u = fst e"
    and sown: "\<forall>i s. snd e = SignalCleanup i \<and> signals w i = Some s \<longrightarrow> sig_key s = fst e"
    and hw: "hasWindow w"
  shows "invoked (visit e w) = invoked w @ [snd e]"
    and "console (visit e w) = console w @ (if throwing (snd e) then [''Error during cleanup:''] else [])"
    and "hasWindow (visit e w)"
    and "\<forall>k'. k' \<noteq> fst e \<longrightarrow> map_of (cleanupFunctions (visit e w)) k' = map_of (cleanupFunctions w) k'"
    and "\<forall>uid' u'. units (visit e w) uid' = Some u' \<longrightarrow> (\<exists>u. units w uid' = Some u \<and> key u = key u')"
    and "\<forall>i' s'. signals (visit e w) i' = Some s' \<longrightarrow> (\<exists>s. signals w i' = Some s \<and> sig_key s = sig_key s')"
proof -
  obtain k f where e: "e = (k, f)" by (cases e)
  have p: "map_of (cleanupFunctions w) k = Some f" using present e by simp
  have all: "invoked (visit e w) = invoked w @ [snd e]
     \<and> console (visit e w) = console w @ (if throwing (snd e) then [''Error during cleanup:''] else [])
     \<and> hasWindow (visit e w)
     \<and> (\<forall>k'. k' \<noteq> fst e \<longrightarrow> map_of (cleanupFunctions (visit e w)) k' = map_of (cleanupFunctions w) k')
     \<and> (\<forall>uid' u'. units (visit e w) uid' = Some u' \<longrightarrow> (\<exists>u. units w uid' = Some u \<and> key u = key u'))
     \<and> (\<forall>i' s'. signals (visit e w) i' = Some s' \<longrightarrow> (\<exists>s. signals w i' = Some s \<and> sig_key s = sig_key s'))"
  proof (cases f)
    case (ForeignCleanup i b)
    have "visit (k, ForeignCleanup i b) w =
            w\<lparr>invoked := invoked w @ [ForeignCleanup i b],
              console := console w @ (if b then [''Error during cleanup:''] else [])\<rparr>"
      using p ForeignCleanup by (intro visit_foreign) simp
    then show ?thesis using hw by (simp add: e ForeignCleanup)
  next
    case (StoreCleanup uid)
    show ?thesis
    proof (cases "units w uid")
      case None
      have "visit (k, StoreCleanup uid) w = w\<lparr>invoked := invoked w @ [StoreCleanup uid]\<rparr>"
        using p StoreCleanup None by (intro visit_store_none) simp_all
      then show ?thesis using hw by (simp add: e StoreCleanup)
    next
      case (Some u)
      have ku: "key u = k" using own e StoreCleanup Some by simp
      have v: "visit (k, StoreCleanup uid) w =
                 cleanup_result u uid (w\<lparr>invoked := invoked w @ [StoreCleanup uid]\<rparr>)"
        using p StoreCleanup Some hw by (intro visit_store_some) simp_all
      show ?thesis
        using hw Some by (simp add: e StoreCleanup v cleanup_result_fields ku)
    qed
  next
    case (SignalCleanup i)
    show ?thesis
    proof (cases "signals w i")
      case None
      have "visit (k, SignalCleanup i) w = w\<lparr>invoked := invoked w @ [SignalCleanup i]\<rparr>"
        using p SignalCleanup None by (intro visit_signal_none) simp_all
      then show ?thesis using hw by (simp add: e SignalCleanup)
    next
      case (Some u)
      have ku: "sig_key u = k" using sown e SignalCleanup Some by simp
      have v: "visit (k, SignalCleanup i) w =
                 signal_cleanup_result u i (w\<lparr>invoked := invoked w @ [SignalCleanup i]\<rparr>)"
        using p SignalCleanup Some hw by (intro visit_signal_some) simp_all
      show ?thesis
        using hw Some by (simp add: e SignalCleanup v signal_cleanup_result_fields ku)
    qed
  qed
  show "invoked (visit e w) = invoked w @ [snd e]"
    and "console (visit e w) = console w @ (if throwing (snd e) then [''Error during cleanup:''] else [])"
    and "hasWindow (visit e w)"
    and "\<forall>k'. k' \<noteq> fst e \<longrightarrow> map_of (cleanupFunctions (visit e w)) k' = map_of (cleanupFunctions w) k'"
    and "\<forall>uid' u'. units (visit e w) uid' = Some u' \<longrightarrow> (\<exists>u. units w uid' = Some u \<and> key u = key u')"
    and "\<forall>i' s'. signals (visit e w) i' = Some s' \<longrightarrow> (\<exists>s. signals w i' = Some s \<and> sig_key s = sig_key s')"
    using all by blast+
qed

lemma sweep_invoked:
  assumes "distinct (map fst es)"
    and "\<forall>e \<in> set es. map_of (cleanupFunctions w) (fst e) = Some (snd e)"
    and "\<forall>e \<in> set es. \<forall>uid u. snd e = StoreCleanup uid \<and> units w uid = Some u \<longrightarrow> key u = fst e"
    and "\<forall>e \<in> set es. \<forall>i s. snd e = SignalCleanup i \<and> signals w i = Some s \<longrightarrow> sig_key s = fst e"
    and "hasWindow w"
  shows "invoked (fold visit es w) = invoked w @ map snd es
         \<and> console (fold visit es w)
             = console w @ map (\<lambda>f. ''Error during cleanup:'') (filter throwing (map snd es))"
  using assms
proof (induction es arbitrary: w)
  case Nil
  show ?case by simp
next
  case (Cons e es)
  let ?w1 = "visit e w"
  have present: "map_of (cleanupFunctions w) (fst e) = Some (snd e)" using Cons.prems(2) by simp
  have own: "\<forall>uid u. snd e = StoreCleanup uid \<and> units w uid = Some u \<longrightarrow> key u = fst e"
    using Cons.prems(3) by auto
  have sown: "\<forall>i s. snd e = SignalCleanup i \<and> signals w i = Some s \<longrightarrow> sig_key s = fst e"
    using Cons.prems(4) by auto
  note step = visit_step [OF present own sown Cons.prems(5)]
  have dist: "distinct (map fst es)" and fresh: "fst e \<notin> fst ` set es"
    using Cons.prems(1) by auto
  have rest1: "\<forall>e' \<in> set es. map_of (cleanupFunctions ?w1) (fst e') = Some (snd e')"
  proof
    fix e' assume m: "e' \<in> set es"
    then have "fst e' \<noteq> fst e" using fresh by (metis imageI)
    then have "map_of (cleanupFunctions ?w1) (fst e') = map_of (cleanupFunctions w) (fst e')"
      using step(4) by blast
    then show "map_of (cleanupFunctions ?w1) (fst e') = Some (snd e')"
      using Cons.prems(2) m by simp
  qed
  have keys1: "\<forall>e' \<in> set es. \<forall>uid' u'. snd e' = StoreCleanup uid' \<and> units ?w1 uid' = Some u'
                 \<longrightarrow> key u' = fst e'"
  proof (intro ballI allI impI)
    fix e' uid' u'
    assume m: "e' \<in> set es" and h: "snd e' = StoreCleanup uid' \<and> units ?w1 uid' = Some u'"
    then obtain u where u: "units w uid' = Some u" "key u = key u'" using step(5) by blast
    have "key u = fst e'" using Cons.prems(3) m h u(1) by auto
    with u(2) show "key u' = fst e'" by simp
  qed
  have keys2: "\<forall>e' \<in> set es. \<forall>i' s'. snd e' = SignalCleanup i' \<and> signals ?w1 i' = Some s'
                 \<longrightarrow> sig_key s' = fst e'"
  proof (intro ballI allI impI)
    fix e' i' s'
    assume m: "e' \<in> set es" and h: "snd e' = SignalCleanup i' \<and> signals ?w1 i' = Some s'"
    then obtain s where s: "signals w i' = Some s" "sig_key s = sig_key s'" using step(6) by blast
    have "sig_key s = fst e'" using Cons.prems(4) m h s(1) by auto
    with s(2) show "sig_key s' = fst e'" by simp
  qed
  have ih: "invoked (fold visit es ?w1) = invoked ?w1 @ map snd es
       \<and> console (fold visit es ?w1)
           = console ?w1 @ map (\<lambda>f. ''Error during cleanup:'') (filter throwing (map snd es))"
    using dist rest1 keys1 keys2 step(3) by (rule Cons.IH)
  show ?case using ih step(1) step(2) by simp
qed

lemma clearAll_invoked:
  assumes ok: "registry_ok w" and hw: "hasWindow w"
  shows "invoked (clearAll_result w) = invoked w @ map snd (cleanupFunctions w)
         \<and> console (clearAll_result w)
             = console w @ map (\<lambda>f. ''Error during cleanup:'')
                               (filter throwing (map snd (cleanupFunctions w)))"
proof -
  have d: "distinct (map fst (cleanupFunctions w))" using ok by (simp add: registry_ok_def)
  then have p: "\<forall>e \<in> set (cleanupFunctions w). map_of (cleanupFunctions w) (fst e) = Some (snd e)"
    by simp
  have k: "\<forall>e \<in> set (cleanupFunctions w). \<forall>uid u.
             snd e = StoreCleanup uid \<and> units w uid = Some u \<longrightarrow> key u = fst e"
    using ok unfolding registry_ok_def by blast
  have k2: "\<forall>e \<in> set (cleanupFunctions w). \<forall>i s.
             snd e = SignalCleanup i \<and> signals w i = Some s \<longrightarrow> sig_key s = fst e"
    using ok unfolding registry_ok_def by blast
  have "invoked (fold visit (cleanupFunctions w) w) = invoked w @ map snd (cleanupFunctions w)
        \<and> console (fold visit (cleanupFunctions w) w)
             = console w @ map (\<lambda>f. ''Error during cleanup:'')
                               (filter throwing (map snd (cleanupFunctions w)))"
    by (rule sweep_invoked [OF d p k k2 hw])
  then show ?thesis
    by (simp add: clearAll_result_def Let_def fold_removeItem)
qed

lemma crowded_tab_eq:
  "crowded_tab =
     browser\<lparr>units := (\<lambda>i. None)(0 \<mapsto> counter_unit), nextUnit := 1,
             syncFunctions := [(Some ''counter'', StoreSync 0)],
             cleanupFunctions := [(Some ''message'', ForeignCleanup 7 True),
                                  (Some ''counter'', StoreCleanup 0)],
             localStorage := [(''theme'', Json (JStr ''dark'')),
                              (''syncsignal-message'', Json (envelope (JStr ''hi'') 3)),
                              (''syncstore-counter'', Json (envelope (JObj [(''count'', JNum 0)]) 10))],
             posted := [(''syncstore-counter'', Json (envelope (JObj [(''count'', JNum 0)]) 10))],
             syncCalls := 1\<rparr>"
  by (simp add: crowded_tab_def counter_unit_def counter_options_def browser_def create_defs)

text \<open>
  Claim C8. \<open>clearAllSyncData\<close> never throws and leaves both registries empty. In a
  context with a durable store, the entries left in the store are exactly those whose
  key starts with neither \<open>syncstore-\<close> nor \<open>syncsignal-\<close>, in their order. With the
  cleanup registry as construction leaves it, every registered cleanup is called, in
  registration order, also after one that threw, and each one that threw left one line
  on the console.
\<close>

theorem clearAllSyncData_sweeps_everything:
  "\<not> threw (clearAllSyncData w)
   \<and> syncFunctions (state_of (clearAllSyncData w)) = []
   \<and> cleanupFunctions (state_of (clearAllSyncData w)) = []
   \<and> (hasWindow w \<and> hasLocalStorage w \<longrightarrow>
        localStorage (state_of (clearAllSyncData w))
          = filter (\<lambda>kv. \<not> namespaced (fst kv)) (localStorage w))
   \<and> (registry_ok w \<and> hasWindow w \<longrightarrow>
        invoked (state_of (clearAllSyncData w)) = invoked w @ map snd (cleanupFunctions w)
        \<and> console (state_of (clearAllSyncData w))
            = console w @ map (\<lambda>f. ''Error during cleanup:'')
                              (filter throwing (map snd (cleanupFunctions w))))"
proof -
  have r: "syncFunctions (clearAll_result w) = []" "cleanupFunctions (clearAll_result w) = []"
    by (simp_all add: clearAll_result_def Let_def)
  show ?thesis
    using r clearAll_localStorage [of w] clearAll_invoked [of w]
    by (simp add: clearAllSyncData_eq)
qed

theorem clearAllSyncData_sweeps_everything_witness:
  "registry_ok crowded_tab \<and> hasWindow crowded_tab \<and> hasLocalStorage crowded_tab
   \<and> \<not> threw (clearAllSyncData crowded_tab)
   \<and> syncFunctions (state_of (clearAllSyncData crowded_tab)) = []
   \<and> cleanupFunctions (state_of (clearAllSyncData crowded_tab)) = []
   \<and> localStorage (state_of (clearAllSyncData crowded_tab)) = [(''theme'', Json (JStr ''dark''))]
   \<and> invoked (state_of (clearAllSyncData crowded_tab)) = [ForeignCleanup 7 True, StoreCleanup 0]
   \<and> console (state_of (clearAllSyncData crowded_tab)) = [''Error during cleanup:'']"
proof -
  have ok: "registry_ok crowded_tab"
    by (simp add: registry_ok_def crowded_tab_eq counter_unit_def)
  have env: "hasWindow crowded_tab \<and> hasLocalStorage crowded_tab"
    by (simp add: crowded_tab_eq browser_def)
  have f: "localStorage crowded_tab =
             [(''theme'', Json (JStr ''dark'')),
              (''syncsignal-message'', Json (envelope (JStr ''hi'') 3)),
              (''syncstore-counter'', Json (envelope (JObj [(''count'', JNum 0)]) 10))]"
          "cleanupFunctions crowded_tab =
             [(Some ''message'', ForeignCleanup 7 True), (Some ''counter'', StoreCleanup 0)]"
          "invoked crowded_tab = []" "console crowded_tab = []"
    by (simp_all add: crowded_tab_eq browser_def)
  show ?thesis
    using ok env clearAllSyncData_sweeps_everything [of crowded_tab]
    by (simp add: f namespaced_def)
qed


section \<open>The watermark over time\<close>

lemma keeps_mark_refl: "keeps_mark uid w w"
  by (auto simp add: keeps_mark_def)

lemma keeps_mark_trans: "keeps_mark uid w w1 \<Longrightarrow> keeps_mark uid w1 w2 \<Longrightarrow> keeps_mark uid w w2"
  unfolding keeps_mark_def by (meson order_trans)

lemma keeps_mark_same:
  "nextUnit w' = nextUnit w \<Longrightarrow> units w' uid = units w uid \<Longrightarrow> keeps_mark uid w w'"
  by (auto simp add: keeps_mark_def)

lemma deliver_no_unit:
  assumes n: "units w i = None"
  shows "nextUnit (state_of (deliver i inc w)) = nextUnit w
         \<and> units (state_of (deliver i inc w)) = units w"
  using n by (simp add: deliver_def)

lemma deliver_frame:
  "nextUnit (state_of (deliver i inc w)) = nextUnit w"
  "j \<noteq> i \<Longrightarrow> units (state_of (deliver i inc w)) j = units w j"
proof -
  have "nextUnit (state_of (deliver i inc w)) = nextUnit w
        \<and> (j \<noteq> i \<longrightarrow> units (state_of (deliver i inc w)) j = units w j)"
  proof (cases "units w i")
    case None
    from deliver_no_unit [OF None, of inc] show ?thesis by simp
  next
    case (Some u)
    then show ?thesis
      by (simp add: deliver_def listener_eq split: option.splits sum.splits)
  qed
  then show "nextUnit (state_of (deliver i inc w)) = nextUnit w"
    and "j \<noteq> i \<Longrightarrow> units (state_of (deliver i inc w)) j = units w j"
    by simp_all
qed

lemma deliver_keeps: "keeps_mark uid w (state_of (deliver i inc w))"
proof (cases "i = uid")
  case False
  then show ?thesis by (intro keeps_mark_same) (simp_all add: deliver_frame)
next
  case True
  show ?thesis
    unfolding keeps_mark_def
  proof (intro conjI allI impI)
    show "nextUnit w \<le> nextUnit (state_of (deliver i inc w))" by (simp add: deliver_frame)
  next
    fix u assume live: "units w uid = Some u"
    from deliver_unit [OF live, of inc] obtain w' u' where
      d: "deliver uid inc w = Done w'" and u': "units w' uid = Some u'" and
      c: "(store u', lastUpdate u') =
             (case (if attached u uid w inc then payload_of u w inc else None) of
                None \<Rightarrow> (store u, lastUpdate u)
              | Some raw \<Rightarrow>
                  (case decode_envelope raw of
                     Some (dat, t) \<Rightarrow>
                       if lastUpdate u < t then (setStore (store u) dat, t) else (store u, lastUpdate u)
                   | None \<Rightarrow> (store u, lastUpdate u)))"
      by blast
    have "lastUpdate u \<le> lastUpdate u'"
      using c by (cases "attached u uid w inc") (auto split: option.splits if_splits)
    with d u' True show "\<exists>u'. units (state_of (deliver i inc w)) uid = Some u' \<and> lastUpdate u \<le> lastUpdate u'"
      by simp
  qed
qed

lemma sync_keeps:
  assumes "i \<noteq> uid \<or> (case watermark uid w of None \<Rightarrow> True | Some m \<Rightarrow> m \<le> t)"
  shows "keeps_mark uid w (state_of (sync i t w))"
proof (cases "units w i")
  case None
  then show ?thesis by (simp add: sync_def keeps_mark_refl)
next
  case (Some u)
  show ?thesis
  proof (cases "i = uid")
    case False
    then show ?thesis
      by (intro keeps_mark_same) (simp_all add: sync_eq [OF Some] sync_result_fields sync_result_other)
  next
    case True
    with assms Some have le: "lastUpdate u \<le> t" by (simp add: watermark_def)
    from sync_result_unit [of u i t w] obtain u' where
      "units (sync_result u i t w) i = Some u'" "lastUpdate u' = t" by blast
    moreover have "sync uid t w = Done (sync_result u uid t w)"
      using sync_eq [OF Some, of t] True by simp
    ultimately show ?thesis
      using le True Some by (auto simp add: keeps_mark_def sync_result_fields)
  qed
qed


lemma keeps_mark_closed:
  assumes "nextUnit w' = nextUnit w"
    and "units w' = units w \<or> (\<exists>i u. units w i = Some u \<and> units w' = (units w)(i \<mapsto> closed_unit u))"
  shows "keeps_mark uid w w'"
  using assms by (auto simp add: keeps_mark_def)

lemma cleanup_keeps: "keeps_mark uid w (state_of (cleanup i w))"
proof (cases "units w i")
  case None
  then show ?thesis by (simp add: cleanup_no_unit keeps_mark_refl)
next
  case (Some u)
  then show ?thesis
    by (intro keeps_mark_closed) (auto simp add: cleanup_state cleanup_result_fields)
qed

lemma keeps_mark_ghost:
  "keeps_mark uid (w\<lparr>invoked := x\<rparr>) w' \<Longrightarrow> keeps_mark uid w w'"
  "keeps_mark uid w w' \<Longrightarrow> keeps_mark uid w (w'\<lparr>console := c\<rparr>)"
  by (simp_all add: keeps_mark_def)

lemma call_cleanup_keeps: "keeps_mark uid w (state_of (call_cleanup f w))"
proof (cases f)
  case (StoreCleanup i)
  then show ?thesis
    using cleanup_keeps [of uid "w\<lparr>invoked := invoked w @ [StoreCleanup i]\<rparr>" i]
    by (simp add: keeps_mark_ghost(1))
next
  case (SignalCleanup i)
  then show ?thesis
    by (intro keeps_mark_same) (simp_all add: signal_cleanup_frame)
next
  case (ForeignCleanup i b)
  then show ?thesis by (simp add: Let_def keeps_mark_def)
qed

lemma visit_keeps: "keeps_mark uid w (visit e w)"
proof (cases "map_of (cleanupFunctions w) (fst e) = Some (snd e)")
  case False
  then show ?thesis by (simp add: visit_def keeps_mark_refl)
next
  case True
  show ?thesis
  proof (cases "call_cleanup (snd e) w")
    case (Done s)
    with True show ?thesis using call_cleanup_keeps [of uid w "snd e"] by (simp add: visit_def)
  next
    case (Threw x s)
    with True show ?thesis
      using call_cleanup_keeps [of uid w "snd e"] by (simp add: visit_def keeps_mark_ghost(2))
  qed
qed

lemma sweep_keeps: "keeps_mark uid w (fold visit es w)"
proof (induction es arbitrary: w)
  case Nil
  show ?case by (simp add: keeps_mark_refl)
next
  case (Cons e es)
  show ?case
    using keeps_mark_trans [OF visit_keeps [of uid w e] Cons.IH [of "visit e w"]] by simp
qed

lemma clearAll_keeps: "keeps_mark uid w (state_of (clearAllSyncData w))"
proof -
  have "keeps_mark uid (fold visit (cleanupFunctions w) w) (clearAll_result w)"
    by (intro keeps_mark_same) (simp_all add: clearAll_result_def Let_def fold_removeItem)
  with sweep_keeps [of uid w "cleanupFunctions w"] show ?thesis
    by (simp add: clearAllSyncData_eq keeps_mark_trans)
qed

lemma clear_entry_keeps: "keeps_mark uid w (clear_entry k ty w)"
  by (intro keeps_mark_same) (simp_all add: clear_entry_def removeItem_def Let_def)

lemma clearSyncData_keeps: "keeps_mark uid w (state_of (clearSyncData k ty w))"
proof (cases "map_of (cleanupFunctions w) (Some k)")
  case None
  then show ?thesis by (simp add: clearSyncData_eq clear_entry_keeps)
next
  case (Some f)
  show ?thesis
  proof (cases "call_cleanup f w")
    case (Done w1)
    then have "keeps_mark uid w w1" using call_cleanup_keeps [of uid w f] by simp
    then have "keeps_mark uid w (clear_entry k ty w1)"
      using clear_entry_keeps [of uid w1 k ty] by (rule keeps_mark_trans)
    with Some Done show ?thesis by (simp add: clearSyncData_eq)
  next
    case (Threw x w1)
    with Some show ?thesis
      using call_cleanup_keeps [of uid w f] by (simp add: clearSyncData_eq keeps_mark_ghost(2))
  qed
qed

lemma create_keeps:
  fixes w :: "('n::{zero,linorder}) world"
  assumes "uid < nextUnit w"
  shows "keeps_mark uid w (state_of (createSyncStore options now0 now1 w))"
proof (cases options)
  case None
  then show ?thesis by (simp add: createSyncStore_def keeps_mark_refl)
next
  case (Some opts)
  from createSyncStore_frame [of opts now0 now1 w] obtain w' where
    "createSyncStore (Some opts) now0 now1 w = Done w'" "nextUnit w' = Suc (nextUnit w)"
    "\<forall>i. i \<noteq> nextUnit w \<longrightarrow> units w' i = units w i"
    by blast
  with Some assms show ?thesis by (auto simp add: keeps_mark_def)
qed

lemma perform_keeps:
  fixes w :: "('n::{zero,linorder}) world"
  assumes "uid < nextUnit w" and "sync_reads_ahead uid op w"
  shows "keeps_mark uid w (perform op w)"
proof (cases op)
  case (Deliver i inc)
  then show ?thesis by (simp add: deliver_keeps)
next
  case (CallSync i t)
  with assms(2) show ?thesis by (simp add: sync_keeps)
next
  case (CallCleanup i)
  then show ?thesis by (simp add: cleanup_keeps)
next
  case (Create options now0 now1)
  with assms(1) show ?thesis by (simp add: create_keeps)
next
  case (ClearSyncData k ty)
  then show ?thesis by (simp add: clearSyncData_keeps)
next
  case ClearAllSyncData
  then show ?thesis by (simp add: clearAll_keeps)
next
  case (RemoteWrite k raw)
  then show ?thesis by (simp add: keeps_mark_def)
next
  case (RemoteRemove k)
  then show ?thesis by (simp add: keeps_mark_def removeItem_def)
qed

lemma run_keeps:
  fixes w :: "('n::{zero,linorder}) world"
  assumes "uid < nextUnit w" and "clock_ahead uid ops w"
  shows "keeps_mark uid w (run ops w)"
  using assms
proof (induction ops arbitrary: w)
  case Nil
  show ?case by (simp add: keeps_mark_refl)
next
  case (Cons op ops)
  have k1: "keeps_mark uid w (perform op w)"
    using Cons.prems by (intro perform_keeps) simp_all
  then have "uid < nextUnit (perform op w)"
    using Cons.prems(1) by (simp add: keeps_mark_def)
  then have "keeps_mark uid (perform op w) (run ops (perform op w))"
    using Cons.prems(2) by (intro Cons.IH) simp_all
  with k1 show ?case by (simp add: keeps_mark_trans)
qed

lemma createSyncStore_watermark:
  fixes w :: "('n::{zero,linorder}) world"
  shows "\<exists>w'. createSyncStore (Some opts) now0 now1 w = Done w'
           \<and> watermark (nextUnit w) w' =
               Some (if opt_persistOnLoad opts = Some False then now0
                     else (case stored_envelope w (storeKey (opt_key opts)) of
                             Some (d, t) \<Rightarrow> t | None \<Rightarrow> now1))"
proof -
  from createSyncStore_cases [of opts now0 now1 w] obtain w' where
    c: "createSyncStore (Some opts) now0 now1 w = Done w'" and
    r: "if opt_persistOnLoad opts = Some False then
          cell (nextUnit w) w' = Some (JObj (opt_initialValue opts), now0)
          \<and> syncCalls w' = syncCalls w \<and> localStorage w' = localStorage w \<and> posted w' = posted w
        else
          (case stored_envelope w (storeKey (opt_key opts)) of
             Some (d, t) \<Rightarrow>
               cell (nextUnit w) w' = Some (setStore (JObj (opt_initialValue opts)) d, t)
               \<and> syncCalls w' = syncCalls w \<and> localStorage w' = localStorage w \<and> posted w' = posted w
           | None \<Rightarrow>
               cell (nextUnit w) w' = Some (JObj (opt_initialValue opts), now1)
               \<and> syncCalls w' = Suc (syncCalls w)
               \<and> (hasWindow w \<and> hasLocalStorage w \<and> \<not> quotaExceeded w \<longrightarrow>
                    getItem w' (storeKey (opt_key opts))
                      = Some (JSON_stringify (envelope (JObj (opt_initialValue opts)) now1))))"
    by blast
  have "watermark (nextUnit w) w' =
               Some (if opt_persistOnLoad opts = Some False then now0
                     else (case stored_envelope w (storeKey (opt_key opts)) of
                             Some (d, t) \<Rightarrow> t | None \<Rightarrow> now1))"
    using r by (auto simp add: cell_def watermark_def split: if_splits option.splits)
  with c show ?thesis by blast
qed

text \<open>
  Claim C2, as the code has it. \<open>createSyncStore\<close> leaves the watermark at the
  creation time, or at the reading of the initial \<open>sync()\<close>, or, when it loads a
  persisted envelope, at that envelope's timestamp. After that, over any sequence of
  deliveries, teardowns, registry operations, constructions of other units and writes by
  other contexts, the watermark of a unit never goes down, and it never goes down at a
  \<open>sync()\<close> of the unit that reads a clock not below the watermark: \<open>sync()\<close> sets the
  watermark to the reading it takes.
\<close>

theorem watermark_never_regresses:
  fixes w :: "('n::{zero,linorder}) world"
  assumes live: "units w uid = Some u"
    and allocated: "uid < nextUnit w"
    and clock: "clock_ahead uid ops w"
  shows "(\<exists>m. watermark uid (run ops w) = Some m \<and> lastUpdate u \<le> m)
         \<and> (\<exists>w'. createSyncStore (Some opts) now0 now1 w = Done w'
               \<and> watermark (nextUnit w) w' =
                   Some (if opt_persistOnLoad opts = Some False then now0
                         else (case stored_envelope w (storeKey (opt_key opts)) of
                                 Some (d, t) \<Rightarrow> t | None \<Rightarrow> now1)))"
proof -
  have "keeps_mark uid w (run ops w)" using allocated clock by (rule run_keeps)
  with live have "\<exists>m. watermark uid (run ops w) = Some m \<and> lastUpdate u \<le> m"
    by (auto simp add: keeps_mark_def watermark_def)
  then show ?thesis using createSyncStore_watermark [of opts now0 now1 w] by blast
qed

theorem watermark_never_regresses_witness:
  "units counter_tab 0 = Some counter_unit \<and> 0 < nextUnit counter_tab
   \<and> clock_ahead 0 [Deliver 0 (ChannelMessage (Json (envelope (JObj [(''count'', JNum 5)]) 15))),
                     CallSync 0 20, ClearAllSyncData] counter_tab
   \<and> (\<exists>m. watermark 0 (run [Deliver 0 (ChannelMessage (Json (envelope (JObj [(''count'', JNum 5)]) 15))),
                             CallSync 0 20, ClearAllSyncData] counter_tab) = Some m
          \<and> 10 \<le> m)"
proof -
  have live: "units counter_tab 0 = Some counter_unit" by (rule counter_tab_unit)
  have allocated: "0 < nextUnit counter_tab" by (simp add: counter_tab_eq)
  have w1: "watermark 0 (perform (Deliver 0 (ChannelMessage (Json (envelope (JObj [(''count'', JNum 5)]) 15))))
                          counter_tab) = Some 15"
    using deliver_cell [OF live, of "ChannelMessage (Json (envelope (JObj [(''count'', JNum 5)]) 15))"]
    by (auto simp add: cell_def watermark_def counter_unit_def)
  have clock: "clock_ahead 0 [Deliver 0 (ChannelMessage (Json (envelope (JObj [(''count'', JNum 5)]) 15))),
                     CallSync 0 20, ClearAllSyncData] counter_tab"
    using w1 by simp
  have lu: "lastUpdate counter_unit = 10" by (simp add: counter_unit_def)
  from watermark_never_regresses [OF live allocated clock, of counter_options 10 10]
  have "\<exists>m. watermark 0 (run [Deliver 0 (ChannelMessage (Json (envelope (JObj [(''count'', JNum 5)]) 15))),
                             CallSync 0 20, ClearAllSyncData] counter_tab) = Some m
          \<and> lastUpdate counter_unit \<le> m"
    by blast
  then show ?thesis
    using live allocated clock by (simp only: lu)
qed

text \<open>As stated, the claim has the watermark start at the creation time and never go
  down, the unit's own \<open>sync()\<close> calls included. The counter unit created at reading
  10 accepts an envelope stamped 1000 and then calls \<open>sync()\<close> at reading 20: the
  watermark goes from 1000 down to 20. And a unit created at reading 10 over an envelope
  persisted at reading 5 starts with watermark 5.\<close>

theorem watermark_regresses_at_sync:
  "watermark 0 counter_tab = Some 10
   \<and> watermark 0 (run [Deliver 0 (ChannelMessage (Json (envelope (JObj [(''count'', JNum 5)]) 1000)))]
                     counter_tab) = Some 1000
   \<and> watermark 0 (run [Deliver 0 (ChannelMessage (Json (envelope (JObj [(''count'', JNum 5)]) 1000))),
                        CallSync 0 20] counter_tab) = Some 20
   \<and> (20::int) < 1000
   \<and> watermark 0 (state_of (createSyncStore (Some counter_options) 10 10 stocked_browser)) = Some 5
   \<and> (5::int) < 10"
proof -
  have live: "units counter_tab 0 = Some counter_unit" by (rule counter_tab_unit)
  let ?msg = "ChannelMessage (Json (envelope (JObj [(''count'', JNum 5)]) (1000::int)))"
  from deliver_unit [OF live, of ?msg] obtain w1 u1 where
    d: "deliver 0 ?msg counter_tab = Done w1" and u1: "units w1 0 = Some u1"
    and c: "lastUpdate u1 = 1000"
    by (auto simp add: counter_unit_def)
  have a: "watermark 0 counter_tab = Some 10"
    by (simp add: watermark_def live counter_unit_def)
  have b: "watermark 0 (run [Deliver 0 ?msg] counter_tab) = Some 1000"
    using d u1 c by (simp add: watermark_def)
  from sync_result_unit [of u1 0 20 w1] obtain u2 where
    "units (sync_result u1 0 20 w1) 0 = Some u2" "lastUpdate u2 = 20" by blast
  then have s: "watermark 0 (run [Deliver 0 ?msg, CallSync 0 20] counter_tab) = Some 20"
    using d by (simp add: watermark_def sync_eq [OF u1])
  have e: "watermark 0 (state_of (createSyncStore (Some counter_options) 10 10 stocked_browser)) = Some 5"
    using createSyncStore_watermark [of counter_options 10 10 stocked_browser] stored_counter
    by (auto simp add: counter_options_def storeKey_def stocked_browser_def browser_def)
  show ?thesis using a b s e by simp
qed


section \<open>What construction establishes\<close>

text \<open>The hypotheses of the teardown and sweep theorems hold of what \<open>createSyncStore\<close>
  and \<open>createSyncSignal\<close> build: a new structured unit has a listener or a timer only
  where there is a \<open>window\<close>, and the cleanup registry stays in order from the empty
  registry on.\<close>

lemma createSyncStore_new_unit:
  fixes w :: "('n::{zero,linorder}) world"
  shows "\<exists>w' u'. createSyncStore (Some opts) now0 now1 w = Done w'
           \<and> units w' (nextUnit w) = Some u' \<and> key u' = opt_key opts
           \<and> (storageListener u' \<or> pollingInterval u' \<noteq> None \<longrightarrow> hasWindow w')"
proof -
  from before_load_unit [of opts now0 w] obtain u3 where
    u3: "units (before_load opts now0 w) (nextUnit w) = Some u3" and k: "key u3 = opt_key opts"
    and h: "pollingInterval u3 \<noteq> None \<longrightarrow> hasWindow w" "storageListener u3 \<longrightarrow> hasWindow w"
    by blast
  show ?thesis
  proof (cases "opt_persistOnLoad opts = Some False")
    case True
    then show ?thesis
      using u3 k h
      by (simp add: create_no_persist register_cleanup_fields before_load_fields)
  next
    case False
    show ?thesis
    proof (cases "stored_envelope w (storeKey (opt_key opts))")
      case None
      from sync_result_unit [of u3 "nextUnit w" now1 "after_failed_load opts now0 w"] obtain u' where
        "units (sync_result u3 (nextUnit w) now1 (after_failed_load opts now0 w)) (nextUnit w) = Some u'"
        "key u' = key u3" "storageListener u' = storageListener u3"
        "pollingInterval u' = pollingInterval u3"
        by blast
      then show ?thesis
        using k h
        by (simp add: create_seeded [OF False u3 k None] register_cleanup_fields
              sync_result_fields after_failed_load_fields)
    next
      case (Some e)
      obtain d t where "e = (d, t)" by (cases e)
      with Some have s: "stored_envelope w (storeKey (opt_key opts)) = Some (d, t)" by simp
      show ?thesis
        using k h
        by (simp add: create_loaded [OF False u3 k s] register_cleanup_fields before_load_fields)
    qed
  qed
qed

text \<open>Construction keeps the cleanup registry in order.\<close>

lemma update_entries:
  "set (AList.update k v al) \<subseteq> insert (k, v) (set al)"
  by (induction al) auto

lemma createSyncStore_registry_ok:
  fixes w :: "('n::{zero,linorder}) world"
  assumes ok: "registry_ok w" and ids: "ids_allocated w"
  shows "registry_ok (state_of (createSyncStore (Some opts) now0 now1 w))
         \<and> ids_allocated (state_of (createSyncStore (Some opts) now0 now1 w))"
proof -
  from createSyncStore_new_unit [of opts now0 now1 w] obtain w' u' where
    c: "createSyncStore (Some opts) now0 now1 w = Done w'"
    and nu: "units w' (nextUnit w) = Some u'" and ku: "key u' = opt_key opts"
    by blast
  from createSyncStore_frame [of opts now0 now1 w] c have
    n: "nextUnit w' = Suc (nextUnit w)" and fr: "\<forall>i. i \<noteq> nextUnit w \<longrightarrow> units w' i = units w i"
    and sg: "signals w' = signals w"
    by auto
  from createSyncStore_registries [of opts now0 now1 w] c have
    r: "cleanupFunctions w' = AList.update (opt_key opts) (StoreCleanup (nextUnit w)) (cleanupFunctions w)"
    by auto
  have d: "distinct (map fst (cleanupFunctions w'))"
    using ok by (simp add: r registry_ok_def distinct_update)
  have mem: "e = (opt_key opts, StoreCleanup (nextUnit w)) \<or> e \<in> set (cleanupFunctions w)"
    if "e \<in> set (cleanupFunctions w')" for e
    using that r update_entries [of "opt_key opts" "StoreCleanup (nextUnit w)" "cleanupFunctions w"]
    by auto
  have keys: "key u = fst e"
    if "e \<in> set (cleanupFunctions w')" "snd e = StoreCleanup uid" "units w' uid = Some u" for e uid u
  proof (cases "e = (opt_key opts, StoreCleanup (nextUnit w))")
    case True
    with that nu ku show ?thesis by simp
  next
    case False
    with mem [OF that(1)] have m: "e \<in> set (cleanupFunctions w)" by simp
    then have "uid < nextUnit w" using ids that(2) unfolding ids_allocated_def by blast
    then have "units w uid = Some u" using fr that(3) by simp
    with ok m that(2) show ?thesis unfolding registry_ok_def by blast
  qed
  have skeys: "sig_key s = fst e"
    if "e \<in> set (cleanupFunctions w')" "snd e = SignalCleanup i" "signals w' i = Some s" for e i s
  proof -
    from mem [OF that(1)] that(2) have m: "e \<in> set (cleanupFunctions w)" by auto
    with ok that(2) that(3) sg show ?thesis unfolding registry_ok_def by auto
  qed
  have al: "uid < nextUnit w'"
    if "e \<in> set (cleanupFunctions w')" "snd e = StoreCleanup uid \<or> snd e = SignalCleanup uid" for e uid
  proof (cases "e = (opt_key opts, StoreCleanup (nextUnit w))")
    case True
    with that n show ?thesis by auto
  next
    case False
    with mem [OF that(1)] have "e \<in> set (cleanupFunctions w)" by simp
    then have "uid < nextUnit w" using ids that(2) unfolding ids_allocated_def by blast
    with n show ?thesis by simp
  qed
  have "registry_ok w'" unfolding registry_ok_def using d keys skeys by blast
  moreover have "ids_allocated w'" unfolding ids_allocated_def using al by blast
  ultimately show ?thesis using c by simp
qed

lemma createSyncSignal_registry_ok:
  fixes w :: "('n::{zero,linorder}) world"
  assumes ok: "registry_ok w" and ids: "ids_allocated w"
  shows "registry_ok (state_of (createSyncSignal v (Some opts) newDate now0 now1 w))
         \<and> ids_allocated (state_of (createSyncSignal v (Some opts) newDate now0 now1 w))"
proof -
  from createSyncSignal_eq [of v opts newDate now0 now1 w] obtain w' u' where
    c: "createSyncSignal v (Some opts) newDate now0 now1 w = Done w'"
    and r: "cleanupFunctions w' = AList.update (so_key opts) (SignalCleanup (nextUnit w)) (cleanupFunctions w)"
    and n: "nextUnit w' = Suc (nextUnit w)" and un: "units w' = units w"
    and nu: "signals w' (nextUnit w) = Some u'" and ku: "sig_key u' = so_key opts"
    and fr: "\<forall>j. j \<noteq> nextUnit w \<longrightarrow> signals w' j = signals w j"
    by blast
  have d: "distinct (map fst (cleanupFunctions w'))"
    using ok by (simp add: r registry_ok_def distinct_update)
  have mem: "e = (so_key opts, SignalCleanup (nextUnit w)) \<or> e \<in> set (cleanupFunctions w)"
    if "e \<in> set (cleanupFunctions w')" for e
    using that r update_entries [of "so_key opts" "SignalCleanup (nextUnit w)" "cleanupFunctions w"]
    by auto
  have keys: "key u = fst e"
    if "e \<in> set (cleanupFunctions w')" "snd e = StoreCleanup uid" "units w' uid = Some u" for e uid u
  proof -
    from mem [OF that(1)] that(2) have m: "e \<in> set (cleanupFunctions w)" by auto
    with ok that(2) that(3) un show ?thesis unfolding registry_ok_def by auto
  qed
  have skeys: "sig_key s = fst e"
    if "e \<in> set (cleanupFunctions w')" "snd e = SignalCleanup i" "signals w' i = Some s" for e i s
  proof (cases "e = (so_key opts, SignalCleanup (nextUnit w))")
    case True
    with that nu ku show ?thesis by simp
  next
    case False
    with mem [OF that(1)] have m: "e \<in> set (cleanupFunctions w)" by simp
    then have "i < nextUnit w" using ids that(2) unfolding ids_allocated_def by blast
    then have "signals w i = Some s" using fr that(3) by simp
    with ok m that(2) show ?thesis unfolding registry_ok_def by blast
  qed
  have al: "uid < nextUnit w'"
    if "e \<in> set (cleanupFunctions w')" "snd e = StoreCleanup uid \<or> snd e = SignalCleanup uid" for e uid
  proof (cases "e = (so_key opts, SignalCleanup (nextUnit w))")
    case True
    with that n show ?thesis by auto
  next
    case False
    with mem [OF that(1)] have "e \<in> set (cleanupFunctions w)" by simp
    then have "uid < nextUnit w" using ids that(2) unfolding ids_allocated_def by blast
    with n show ?thesis by simp
  qed
  have "registry_ok w'" unfolding registry_ok_def using d keys skeys by blast
  moreover have "ids_allocated w'" unfolding ids_allocated_def using al by blast
  ultimately show ?thesis using c by simp
qed

lemma browser_registry_ok: "registry_ok browser \<and> ids_allocated browser"
  by (simp add: registry_ok_def ids_allocated_def browser_def)

end
